theory Spec2Isabelle
  imports Complex_Main "HOL-Library.AList"
begin

section \<open>Common data\<close>

text \<open>
  JavaScript numbers are modelled as mathematical reals and timestamps (milliseconds) as
  integers.  Open-ended \<open>Record<string, any>\<close> bags are modelled as JSON trees; an object is
  the ordered list of its own properties.
\<close>

datatype jsval =
    JNull
  | JBool bool
  | JNum real
  | JStr string
  | JArr "jsval list"
  | JObj "(string \<times> jsval) list"

section \<open>Strings\<close>

text \<open>
  A string is the list of its code units; the model covers the code units below 256, on
  which \<open>toLowerCase\<close> acts on \<open>A-Z\<close> and on the Latin-1 capitals.
\<close>

definition toLowerChar :: "char \<Rightarrow> char" where
  "toLowerChar c =
     (let n = (of_char c :: nat) in
      if (65 \<le> n \<and> n \<le> 90) \<or> (192 \<le> n \<and> n \<le> 222 \<and> n \<noteq> 215)
      then char_of (n + 32) else c)"

definition toLowerCase :: "string \<Rightarrow> string" where
  "toLowerCase s = map toLowerChar s"

definition startsWith :: "string \<Rightarrow> string \<Rightarrow> bool" where
  "startsWith s t = (take (length t) s = t)"

text \<open>\<open>s.includes(t)\<close>: \<open>t\<close> occurs in \<open>s\<close> as a contiguous substring.\<close>

fun includes_str :: "string \<Rightarrow> string \<Rightarrow> bool" where
  "includes_str [] t = (t = [])"
| "includes_str (c # cs) t = (startsWith (c # cs) t \<or> includes_str cs t)"

definition endsWith :: "string \<Rightarrow> string \<Rightarrow> bool" where
  "endsWith s t = (length t \<le> length s \<and> drop (length s - length t) s = t)"

text \<open>White space as \<open>trim\<close> and the class \<open>\s\<close> see it (code units below 256).\<close>

definition isSpaceChar :: "char \<Rightarrow> bool" where
  "isSpaceChar c = ((of_char c :: nat) \<in> {9, 10, 11, 12, 13, 32, 160})"

definition trim :: "string \<Rightarrow> string" where
  "trim s = rev (dropWhile isSpaceChar (rev (dropWhile isSpaceChar s)))"

section \<open>Regular expressions\<close>

text \<open>
  The fragment of the JavaScript \<open>RegExp\<close> language that the tables of the recognisers use,
  with the backtracking semantics of the language: a matcher returns, in order of priority,
  every state in which a match of the expression can end.  \<open>r+\<close>, \<open>r?\<close> and \<open>r{m,n}\<close>
  are written with \<open>Seq\<close>, \<open>Alt\<close>, \<open>Eps\<close> and \<open>Star\<close>.
\<close>

datatype citem =
    CChar char
  | CRange char char
  | CSpace
  | CDigit
  | CWord

datatype regex =
    Eps
  | Cls "citem list"
  | Dot
  | Seq regex regex
  | Alt regex regex
  | Star regex
  | Grp nat regex
  | WordB
  | Bol
  | Eol

definition isDigitChar :: "char \<Rightarrow> bool" where
  "isDigitChar c = (let n = (of_char c :: nat) in 48 \<le> n \<and> n \<le> 57)"

definition isWordChar :: "char \<Rightarrow> bool" where
  "isWordChar c =
     (let n = (of_char c :: nat) in
      (48 \<le> n \<and> n \<le> 57) \<or> (65 \<le> n \<and> n \<le> 90) \<or> (97 \<le> n \<and> n \<le> 122) \<or> n = 95)"

definition isLineTerminator :: "char \<Rightarrow> bool" where
  "isLineTerminator c = ((of_char c :: nat) \<in> {10, 13})"

text \<open>The upper-case partner of a code unit below 256 under the flag \<open>i\<close>.\<close>

definition toUpperChar :: "char \<Rightarrow> char" where
  "toUpperChar c =
     (let n = (of_char c :: nat) in
      if (97 \<le> n \<and> n \<le> 122) \<or> (224 \<le> n \<and> n \<le> 254 \<and> n \<noteq> 247)
      then char_of (n - 32) else c)"

definition inRange :: "char \<Rightarrow> char \<Rightarrow> char \<Rightarrow> bool" where
  "inRange lo hi c = ((of_char lo :: nat) \<le> of_char c \<and> (of_char c :: nat) \<le> of_char hi)"

fun citemMatches :: "bool \<Rightarrow> citem \<Rightarrow> char \<Rightarrow> bool" where
  "citemMatches ic (CChar x) c = (if ic then toUpperChar x = toUpperChar c else x = c)"
| "citemMatches ic (CRange lo hi) c =
     (if ic then inRange lo hi c \<or> inRange lo hi (toLowerChar c) \<or> inRange lo hi (toUpperChar c)
      else inRange lo hi c)"
| "citemMatches ic CSpace c = isSpaceChar c"
| "citemMatches ic CDigit c = isDigitChar c"
| "citemMatches ic CWord c = isWordChar c"

text \<open>
  A matcher state: the index reached, the code unit before it, the rest of the input and
  the spans of the capture groups.
\<close>

type_synonym mstate = "nat \<times> char option \<times> string \<times> (nat \<times> nat \<times> nat) list"

definition isWordAt :: "char option \<Rightarrow> bool" where
  "isWordAt co = (case co of None \<Rightarrow> False | Some c \<Rightarrow> isWordChar c)"

definition nextChar :: "string \<Rightarrow> char option" where
  "nextChar rest = (case rest of [] \<Rightarrow> None | c # cs \<Rightarrow> Some c)"

primrec groupsOf :: "regex \<Rightarrow> nat list" where
  "groupsOf Eps = []"
| "groupsOf (Cls items) = []"
| "groupsOf Dot = []"
| "groupsOf (Seq r1 r2) = groupsOf r1 @ groupsOf r2"
| "groupsOf (Alt r1 r2) = groupsOf r1 @ groupsOf r2"
| "groupsOf (Star r) = groupsOf r"
| "groupsOf (Grp n r) = n # groupsOf r"
| "groupsOf WordB = []"
| "groupsOf Bol = []"
| "groupsOf Eol = []"

definition clearGroups :: "nat list \<Rightarrow> mstate \<Rightarrow> mstate" where
  "clearGroups gs st =
     (case st of (pos, prev, rest, caps) \<Rightarrow> (pos, prev, rest, filter (\<lambda>g. fst g \<notin> set gs) caps))"

text \<open>
  Greedy repetition: each further iteration must consume input (an empty iteration is
  rejected), so the length of the rest bounds the number of iterations.
\<close>

fun repeatMatcher :: "(mstate \<Rightarrow> mstate list) \<Rightarrow> nat \<Rightarrow> mstate \<Rightarrow> mstate list" where
  "repeatMatcher m 0 st = [st]"
| "repeatMatcher m (Suc n) st =
     concat (map (\<lambda>st'. if length (fst (snd (snd st'))) < length (fst (snd (snd st)))
                          then repeatMatcher m n st' else [])
                 (m st))
     @ [st]"

primrec rmatch :: "regex \<Rightarrow> bool \<Rightarrow> mstate \<Rightarrow> mstate list" where
  "rmatch Eps ic st = [st]"
| "rmatch (Cls items) ic st =
     (case st of (pos, prev, rest, caps) \<Rightarrow>
        (case rest of
           [] \<Rightarrow> []
         | c # cs \<Rightarrow> if list_ex (\<lambda>it. citemMatches ic it c) items
                     then [(Suc pos, Some c, cs, caps)] else []))"
| "rmatch Dot ic st =
     (case st of (pos, prev, rest, caps) \<Rightarrow>
        (case rest of
           [] \<Rightarrow> []
         | c # cs \<Rightarrow> if isLineTerminator c then [] else [(Suc pos, Some c, cs, caps)]))"
| "rmatch (Seq r1 r2) ic st = concat (map (rmatch r2 ic) (rmatch r1 ic st))"
| "rmatch (Alt r1 r2) ic st = rmatch r1 ic st @ rmatch r2 ic st"
| "rmatch (Star r) ic st =
     repeatMatcher (\<lambda>s. rmatch r ic (clearGroups (groupsOf r) s)) (length (fst (snd (snd st)))) st"
| "rmatch (Grp n r) ic st =
     map (\<lambda>st'. case st' of (pos', prev', rest', caps') \<Rightarrow>
                  (pos', prev', rest', AList.update n (fst st, pos') caps'))
         (rmatch r ic st)"
| "rmatch WordB ic st =
     (case st of (pos, prev, rest, caps) \<Rightarrow>
        if isWordAt prev \<noteq> isWordAt (nextChar rest) then [st] else [])"
| "rmatch Bol ic st = (if fst st = 0 then [st] else [])"
| "rmatch Eol ic st = (if fst (snd (snd st)) = [] then [st] else [])"

text \<open>
  One \<open>exec\<close> from a given index: the leftmost index at or after it where the expression
  matches, as \<open>match.index\<close>, with the matcher state at the end of \<open>match[0]\<close>.
\<close>

fun searchFrom :: "regex \<Rightarrow> bool \<Rightarrow> nat \<Rightarrow> char option \<Rightarrow> string \<Rightarrow> (nat \<times> mstate) option" where
  "searchFrom r ic pos prev [] =
     (case rmatch r ic (pos, prev, [], []) of
        [] \<Rightarrow> None
      | m # ms \<Rightarrow> Some (pos, m))"
| "searchFrom r ic pos prev (c # cs) =
     (case rmatch r ic (pos, prev, c # cs, []) of
        [] \<Rightarrow> searchFrom r ic (Suc pos) (Some c) cs
      | m # ms \<Rightarrow> Some (pos, m))"

text \<open>\<open>regex.test(s)\<close> for an expression without the flag \<open>g\<close>.\<close>

definition regexTest :: "regex \<Rightarrow> bool \<Rightarrow> string \<Rightarrow> bool" where
  "regexTest r ic s = (searchFrom r ic 0 None s \<noteq> None)"

text \<open>Abbreviations for writing the tables.\<close>

definition lit :: "string \<Rightarrow> regex" where
  "lit s = foldr (\<lambda>c r. Seq (Cls [CChar c]) r) s Eps"

fun alts :: "regex list \<Rightarrow> regex" where
  "alts [] = Cls []"
| "alts [r] = r"
| "alts (r # rs) = Alt r (alts rs)"

definition wordsRx :: "string list \<Rightarrow> regex" where
  "wordsRx ws = alts (map lit ws)"

definition plus :: "regex \<Rightarrow> regex" where
  "plus r = Seq r (Star r)"

definition opt :: "regex \<Rightarrow> regex" where
  "opt r = Alt r Eps"

fun seqs :: "regex list \<Rightarrow> regex" where
  "seqs [] = Eps"
| "seqs [r] = r"
| "seqs (r # rs) = Seq r (seqs rs)"

subsection \<open>Matches consume input\<close>

text \<open>A state \<open>st'\<close> is reached from \<open>st\<close> by consuming a prefix of the rest of the input.\<close>

definition advances :: "mstate \<Rightarrow> mstate \<Rightarrow> bool" where
  "advances st st' =
     (\<exists>w. fst (snd (snd st)) = w @ fst (snd (snd st')) \<and> fst st' = fst st + length w)"

lemma advances_refl: "advances st st"
  by (simp add: advances_def)

lemma advances_trans:
  assumes "advances a b" "advances b c"
  shows "advances a c"
proof -
  from assms obtain w v where
    "fst (snd (snd a)) = w @ fst (snd (snd b))" "fst b = fst a + length w"
    "fst (snd (snd b)) = v @ fst (snd (snd c))" "fst c = fst b + length v"
    unfolding advances_def by blast
  then have "fst (snd (snd a)) = (w @ v) @ fst (snd (snd c)) \<and> fst c = fst a + length (w @ v)"
    by simp
  then show ?thesis unfolding advances_def by blast
qed

lemma advances_clearGroups: "advances (clearGroups gs st) st' \<Longrightarrow> advances st st'"
  by (cases st) (simp add: advances_def clearGroups_def)

lemma advances_step: "advances (pos, prev, c # cs, caps) (Suc pos, prev', cs, caps')"
  unfolding advances_def by (rule exI[of _ "[c]"]) simp

lemma repeatMatcher_advances:
  assumes m: "\<And>s s'. s' \<in> set (m s) \<Longrightarrow> advances s s'"
  shows "st' \<in> set (repeatMatcher m n st) \<Longrightarrow> advances st st'"
proof (induction n arbitrary: st)
  case 0
  then show ?case by (simp add: advances_refl)
next
  case (Suc n)
  from Suc.prems have "st' = st \<or> (\<exists>s \<in> set (m st). st' \<in> set (if length (fst (snd (snd s))) < length (fst (snd (snd st)))
                          then repeatMatcher m n s else []))"
    by auto
  then show ?case
  proof
    assume "st' = st"
    then show ?thesis by (simp add: advances_refl)
  next
    assume "\<exists>s \<in> set (m st). st' \<in> set (if length (fst (snd (snd s))) < length (fst (snd (snd st)))
                          then repeatMatcher m n s else [])"
    then obtain s where s: "s \<in> set (m st)" and "st' \<in> set (if length (fst (snd (snd s))) < length (fst (snd (snd st)))
                          then repeatMatcher m n s else [])" by blast
    then have "st' \<in> set (repeatMatcher m n s)" by (simp split: if_splits)
    from m[OF s] Suc.IH[OF this] show ?thesis by (rule advances_trans)
  qed
qed

lemma rmatch_advances: "st' \<in> set (rmatch r ic st) \<Longrightarrow> advances st st'"
proof (induction r arbitrary: st st')
  case Eps
  then show ?case by (simp add: advances_refl)
next
  case (Cls items)
  obtain pos prev rest caps where st: "st = (pos, prev, rest, caps)" by (cases st)
  from Cls.prems obtain c cs where "rest = c # cs" "st' = (Suc pos, Some c, cs, caps)"
    unfolding st by (simp split: list.splits if_splits) blast
  then show ?case unfolding st by (simp add: advances_step)
next
  case Dot
  obtain pos prev rest caps where st: "st = (pos, prev, rest, caps)" by (cases st)
  from Dot.prems obtain c cs where "rest = c # cs" "st' = (Suc pos, Some c, cs, caps)"
    unfolding st by (simp split: list.splits if_splits) blast
  then show ?case unfolding st by (simp add: advances_step)
next
  case (Seq r1 r2)
  from Seq.prems obtain s where "s \<in> set (rmatch r1 ic st)" "st' \<in> set (rmatch r2 ic s)"
    by auto
  with Seq.IH show ?case using advances_trans by blast
next
  case (Alt r1 r2)
  from Alt.prems have "st' \<in> set (rmatch r1 ic st) \<or> st' \<in> set (rmatch r2 ic st)" by simp
  then show ?case using Alt.IH by blast
next
  case (Star r)
  have "\<And>s s'. s' \<in> set (rmatch r ic (clearGroups (groupsOf r) s)) \<Longrightarrow> advances s s'"
    using Star.IH advances_clearGroups by blast
  from repeatMatcher_advances[of "\<lambda>s. rmatch r ic (clearGroups (groupsOf r) s)", OF this] Star.prems
  show ?case by simp
next
  case (Grp n r)
  from Grp.prems obtain s where s: "s \<in> set (rmatch r ic st)"
    and "st' = (case s of (pos', prev', rest', caps') \<Rightarrow> (pos', prev', rest', AList.update n (fst st, pos') caps'))"
    by auto
  then have "fst st' = fst s" "fst (snd (snd st')) = fst (snd (snd s))"
    by (simp_all split: prod.splits)
  with Grp.IH[OF s] show ?case by (simp add: advances_def)
next
  case WordB
  obtain pos prev rest caps where st: "st = (pos, prev, rest, caps)" by (cases st)
  from WordB have "st' = st" unfolding st by (simp split: if_splits)
  then show ?case by (simp add: advances_refl)
next
  case Bol
  then have "st' = st" by (simp split: if_splits)
  then show ?case by (simp add: advances_refl)
next
  case Eol
  then have "st' = st" by (simp split: if_splits)
  then show ?case by (simp add: advances_refl)
qed

lemma searchFrom_advances:
  "searchFrom r ic pos prev rest = Some (idx, m) \<Longrightarrow>
   \<exists>skipped pv. rest = skipped @ drop (length skipped) rest \<and> idx = pos + length skipped
      \<and> advances (idx, pv, drop (length skipped) rest, []) m"
proof (induction rest arbitrary: pos prev)
  case Nil
  then have mem: "m \<in> set (rmatch r ic (pos, prev, [], []))" and idx: "idx = pos"
    by (auto split: list.splits)
  from mem have "advances (pos, prev, [], []) m" by (rule rmatch_advances)
  with idx show ?case by auto
next
  case (Cons c cs)
  show ?case
  proof (cases "rmatch r ic (pos, prev, c # cs, [])")
    case Nil
    with Cons.prems have "searchFrom r ic (Suc pos) (Some c) cs = Some (idx, m)" by simp
    from Cons.IH[OF this] obtain skipped pv where
      "cs = skipped @ drop (length skipped) cs" "idx = Suc pos + length skipped"
      "advances (idx, pv, drop (length skipped) cs, []) m" by blast
    then have "c # cs = (c # skipped) @ drop (length (c # skipped)) (c # cs)
       \<and> idx = pos + length (c # skipped)
       \<and> advances (idx, pv, drop (length (c # skipped)) (c # cs), []) m" by simp
    then show ?thesis by blast
  next
    case (Cons m' ms)
    with Cons.prems have mm: "m = m'" and idx: "idx = pos" by simp_all
    from mm Cons have "m \<in> set (rmatch r ic (pos, prev, c # cs, []))" by simp
    then have "advances (pos, prev, c # cs, []) m" by (rule rmatch_advances)
    with idx have "c # cs = [] @ drop (length ([]::string)) (c # cs) \<and> idx = pos + length ([]::string)
       \<and> advances (idx, prev, drop (length ([]::string)) (c # cs), []) m" by simp
    then show ?thesis by blast
  qed
qed

lemma searchFrom_shrinks:
  assumes "searchFrom r ic pos prev rest = Some (idx, m)" and "idx < fst m"
  shows "length (fst (snd (snd m))) < length rest"
proof -
  from searchFrom_advances[OF assms(1)] obtain skipped pv where
    sk: "rest = skipped @ drop (length skipped) rest"
    and adv: "advances (idx, pv, drop (length skipped) rest, []) m" by blast
  from adv obtain w where w: "drop (length skipped) rest = w @ fst (snd (snd m))"
    and "fst m = idx + length w" unfolding advances_def by auto
  with assms(2) have "0 < length w" by simp
  moreover have "length (drop (length skipped) rest) \<le> length rest" by simp
  moreover from w have "length (drop (length skipped) rest) = length w + length (fst (snd (snd m)))"
    by (metis length_append)
  ultimately show ?thesis by linarith
qed

subsection \<open>The loop \<open>while ((match = regex.exec(text)) !== null)\<close>\<close>

text \<open>
  With the flag \<open>g\<close>, each \<open>exec\<close> starts at \<open>lastIndex\<close>, the end of the previous match.
  An empty match leaves \<open>lastIndex\<close> where it is, so the loop finds it again for ever: the
  result is then \<open>None\<close>.  Otherwise the result is the list of all matches, each as
  \<open>match.index\<close> with the matcher state at the end of the match.
\<close>

function execAll :: "regex \<Rightarrow> bool \<Rightarrow> nat \<Rightarrow> char option \<Rightarrow> string \<Rightarrow> (nat \<times> mstate) list option" where
  "execAll r ic pos prev rest =
     (case searchFrom r ic pos prev rest of
        None \<Rightarrow> Some []
      | Some (idx, m) \<Rightarrow>
          if idx < fst m
          then map_option ((#) (idx, m)) (execAll r ic (fst m) (fst (snd m)) (fst (snd (snd m))))
          else None)"
  by pat_completeness auto
termination
proof (relation "measure (\<lambda>(r, ic, pos, prev, rest). length rest)")
  show "wf (measure (\<lambda>(r, ic, pos, prev, rest). length rest))" by simp
next
  fix r ic pos prev rest x2 x y
  assume "searchFrom r ic pos prev rest = Some x2" "(x, y) = x2" "x < fst y"
  then have "length (fst (snd (snd y))) < length rest"
    using searchFrom_shrinks[of r ic pos prev rest x y] by simp
  then show "((r, ic, fst y, fst (snd y), fst (snd (snd y))), r, ic, pos, prev, rest)
      \<in> measure (\<lambda>(r, ic, pos, prev, rest). length rest)" by simp
qed

section \<open>EntityTracker (entity-tracker.ts)\<close>

text \<open>The entity objects the tracker stores: the fields \<open>updateEntity\<close> writes.\<close>

record TrackedEntity =
  te_id :: string
  te_name :: string
  te_type :: string
  te_firstMentioned :: int
  te_lastMentioned :: int
  te_attributes :: "(string \<times> jsval) list"
  te_salience :: real

text \<open>
  The two \<open>Map\<close>s of the class are association lists in insertion order;
  \<open>AList.update\<close> overwrites in place or appends, as \<open>Map.set\<close> does.
\<close>

record EntityTracker =
  et_entities :: "(string \<times> TrackedEntity) list"
  et_entityLifespan :: "(string \<times> real) list"
  et_lastCleanupTimestamp :: int

text \<open>One iteration of the loop in \<open>cleanupStaleEntities\<close>, for the entry \<open>(entityId, lifespan)\<close>.\<close>

definition cleanupEntry :: "int \<Rightarrow> string \<times> real \<Rightarrow> EntityTracker \<Rightarrow> EntityTracker" where
  "cleanupEntry now entry st =
     (let entityId = fst entry; lifespan = snd entry in
      case map_of (et_entities st) entityId of
        None \<Rightarrow> st\<lparr>et_entityLifespan := AList.delete entityId (et_entityLifespan st)\<rparr>
      | Some entity \<Rightarrow>
          (let timeSinceLastMention = now - te_lastMentioned entity;
               newLifespan = lifespan - (real_of_int timeSinceLastMention / (10 * 60 * 1000))
           in if newLifespan \<le> 0
              then st\<lparr>et_entities := AList.delete entityId (et_entities st),
                      et_entityLifespan := AList.delete entityId (et_entityLifespan st)\<rparr>
              else st\<lparr>et_entityLifespan := AList.update entityId newLifespan (et_entityLifespan st),
                      et_entities := AList.update entityId
                         (entity\<lparr>te_salience := max 0.1 (te_salience entity * 0.95)\<rparr>)
                         (et_entities st)\<rparr>))"

fun cleanupLoop :: "int \<Rightarrow> (string \<times> real) list \<Rightarrow> EntityTracker \<Rightarrow> EntityTracker" where
  "cleanupLoop now [] st = st"
| "cleanupLoop now (entry # rest) st = cleanupLoop now rest (cleanupEntry now entry st)"

definition cleanupStaleEntities :: "int \<Rightarrow> EntityTracker \<Rightarrow> EntityTracker" where
  "cleanupStaleEntities now st =
     (if now - et_lastCleanupTimestamp st < 60000 then st
      else cleanupLoop now (et_entityLifespan st) (st\<lparr>et_lastCleanupTimestamp := now\<rparr>))"

section \<open>Context types (types.ts)\<close>

text \<open>
  The records carry the properties the code reads and writes; where the code and the
  interface declarations disagree on a property name (\<open>message.role\<close>,
  \<open>intention.lastDetected\<close>, \<open>entity.salience\<close>), the code's name is used.
\<close>

record UserIntention =
  ui_id :: string
  ui_type :: string
  ui_firstDetected :: int
  ui_lastDetected :: int
  ui_confidence :: real
  ui_status :: string
  ui_relatedEntities :: "string list option"

record ConversationState =
  cs_id :: string
  cs_stage :: string
  cs_activeTopics :: "string list"
  cs_recentSentiment :: real
  cs_engagementLevel :: real
  cs_userSatisfaction :: real

record EnvironmentalFactor =
  ef_type :: string
  ef_value :: jsval
  ef_confidence :: real
  ef_timestamp :: int

record UserPreference =
  up_id :: string
  up_category :: string
  up_value :: jsval
  up_confidence :: real
  up_lastUpdated :: int
  up_source :: string

datatype MessageContent = TextContent string | RecordContent "(string \<times> jsval) list"

record Message =
  msg_id :: string
  msg_conversationId :: string
  msg_role :: string
  msg_content :: MessageContent
  msg_timestamp :: int
  msg_metadata :: "(string \<times> jsval) list"

record Context =
  ctx_entities :: "TrackedEntity list"
  ctx_userIntentions :: "UserIntention list"
  ctx_conversationState :: ConversationState
  ctx_environmentalFactors :: "EnvironmentalFactor list"
  ctx_userPreferences :: "UserPreference list"
  ctx_recentMessages :: "Message list"
  ctx_conversationId :: string

section \<open>IntentionRecognizer (intention-recognizer.ts)\<close>


text \<open>
  \<open>updateIntentionLifespans\<close>: the loop over the entries of \<open>activeIntentions\<close>; a deleted
  entry is dropped from the list, an aging one has its confidence lowered in place.
  \<open>Date.now()\<close> is the parameter \<open>now\<close>.
\<close>

fun updateIntentionLifespans ::
  "int \<Rightarrow> (string \<times> UserIntention) list \<Rightarrow> (string \<times> UserIntention) list" where
  "updateIntentionLifespans now [] = []"
| "updateIntentionLifespans now ((intentionId, intention) # rest) =
     (let timeSinceLastDetection = now - ui_lastDetected intention in
      if timeSinceLastDetection > 10 * 60 * 1000
      then updateIntentionLifespans now rest
      else if timeSinceLastDetection > 5 * 60 * 1000
      then (intentionId, intention\<lparr>ui_confidence := max 0.1 (ui_confidence intention * 0.8)\<rparr>)
             # updateIntentionLifespans now rest
      else (intentionId, intention) # updateIntentionLifespans now rest)"


text \<open>Decimal digits of a number, for the identifiers built from \<open>Date.now()\<close>.\<close>

fun string_of_nat :: "nat \<Rightarrow> string" where
  "string_of_nat n =
     (if n < 10 then [char_of (48 + n)]
      else string_of_nat (n div 10) @ [char_of (48 + n mod 10)])"






definition orEmpty :: "'a list option \<Rightarrow> 'a list" where
  "orEmpty xs = (case xs of None \<Rightarrow> [] | Some ys \<Rightarrow> ys)"



section \<open>Enhanced types (enhanced-types.ts)\<close>

datatype IntentionType =
    QUESTION_FACTUAL | QUESTION_OPINION | QUESTION_CLARIFICATION
  | REQUEST_ACTION | SUGGEST_ACTION | COMMAND
  | GREETING | FAREWELL | GRATITUDE | APOLOGY | AGREEMENT | DISAGREEMENT
  | EXPRESS_POSITIVE | EXPRESS_NEGATIVE | EXPRESS_NEUTRAL
  | FEEDBACK_POSITIVE | FEEDBACK_NEGATIVE | TOPIC_SWITCH | META_COMMUNICATION
  | SYSTEM_INFORM | SYSTEM_REQUEST | SYSTEM_SUGGEST | SYSTEM_ACKNOWLEDGE | SYSTEM_CLARIFY
  | UNKNOWN

datatype EntityType =
    PERSON | LOCATION | ORGANIZATION | DATE_TIME | DURATION | PRODUCT | EVENT | TOPIC
  | CONCEPT | TASK | PREFERENCE | CUSTOM

text \<open>The string value of each member of the enum \<open>EntityType\<close>.\<close>

fun entityTypeValue :: "EntityType \<Rightarrow> string" where
  "entityTypeValue PERSON = ''person''"
| "entityTypeValue LOCATION = ''location''"
| "entityTypeValue ORGANIZATION = ''organization''"
| "entityTypeValue DATE_TIME = ''date_time''"
| "entityTypeValue DURATION = ''duration''"
| "entityTypeValue PRODUCT = ''product''"
| "entityTypeValue EVENT = ''event''"
| "entityTypeValue TOPIC = ''topic''"
| "entityTypeValue CONCEPT = ''concept''"
| "entityTypeValue TASK = ''task''"
| "entityTypeValue PREFERENCE = ''preference''"
| "entityTypeValue CUSTOM = ''custom''"

text \<open>An optional field of an interface is an \<open>option\<close>.\<close>

record Entity =
  en_type :: EntityType
  en_value :: string
  en_normalizedValue :: "string option"
  en_startIndex :: "nat option"
  en_endIndex :: "nat option"
  en_confidence :: real
  en_attributes :: "(string \<times> jsval) list option"
  en_firstMentionedAt :: "int option"
  en_lastMentionedAt :: "int option"
  en_mentionCount :: "nat option"

datatype Sender = User | System

section \<open>IntentionDetector (intention-detector.ts)\<close>

text \<open>
  The metadata of an intention is \<open>{matchedPattern: pattern.toString()}\<close> or
  \<open>{matchedKeywords: matches}\<close>; the pattern itself stands for its source text.
\<close>

datatype IntentionMeta = MatchedPattern regex | MatchedKeywords "string list"

record Intention =
  in_type :: IntentionType
  in_confidence :: real
  in_relatedEntities :: "Entity list option"
  in_metadata :: "IntentionMeta option"

text \<open>A pattern of the table: \<open>/^(w1|w2|...)rest/i\<close> with the alternatives in group 1.\<close>

definition startRx :: "string list \<Rightarrow> regex list \<Rightarrow> regex" where
  "startRx ws rest = seqs (Bol # Grp 1 (wordsRx ws) # rest)"

text \<open>The tails \<open>.+\?$\<close> and \<open>.+$\<close>.\<close>

definition restQuestion :: "regex list" where
  "restQuestion = [plus Dot, lit ''?'', Eol]"

definition restAny :: "regex list" where
  "restAny = [plus Dot, Eol]"

definition intentionPatterns :: "(IntentionType \<times> regex list) list" where
  "intentionPatterns =
    [(QUESTION_FACTUAL,
       [startRx [''what'', ''where'', ''when'', ''who'', ''how'', ''why'', ''which'',
                 ''can you tell me'', ''do you know'', ''tell me about''] restQuestion,
        seqs ([Bol, lit ''is''] @ restQuestion),
        seqs ([Bol, lit ''are''] @ restQuestion),
        startRx [''could'', ''would'']
          ([lit '' you '', Grp 2 (wordsRx [''tell'', ''explain'', ''describe'', ''clarify''])]
           @ restQuestion)]),
     (QUESTION_OPINION,
       [seqs ([Bol, lit ''what '',
               Grp 1 (wordsRx [''do you think'', ''is your opinion'', ''are your thoughts'']),
               lit '' '', Grp 2 (wordsRx [''about'', ''on''])] @ restQuestion),
        startRx [''how'', ''what''] (lit '' do you feel about'' # restQuestion),
        seqs ([Bol, lit ''would you '', Grp 1 (wordsRx [''say'', ''consider'', ''recommend''])]
              @ restQuestion)]),
     (QUESTION_CLARIFICATION,
       [startRx [''what do you mean'', ''can you clarify'', ''could you explain'',
                 ''i'm not sure i understand'', ''what do you mean by''] restQuestion,
        startRx [''come again'', ''sorry'', ''excuse me'', ''pardon''] [lit ''?'', Eol]]),
     (REQUEST_ACTION,
       [startRx [''can'', ''could'', ''would'']
          ([lit '' you '', opt (Grp 2 (lit ''please '')),
            Grp 3 (wordsRx [''help'', ''assist'', ''do'', ''create'', ''make'', ''find'', ''show'',
                            ''display'', ''calculate''])] @ restQuestion),
        startRx [''please'', ''kindly'']
          ([lit '' '', Grp 2 (wordsRx [''help'', ''assist'', ''show'', ''find'', ''create''])]
           @ restAny),
        seqs ([Bol, lit ''i '', Grp 1 (wordsRx [''need'', ''want'', ''would like'']), lit '' '',
               Grp 2 (wordsRx [''you to'', ''for you to'', ''help with'', ''assistance with''])]
              @ restAny)]),
     (COMMAND,
       [startRx [''help'', ''assist'', ''do'', ''create'', ''make'', ''find'', ''show'', ''display'',
                 ''calculate'', ''clear'', ''delete'', ''remove'', ''change'', ''switch'', ''toggle'',
                 ''set'', ''turn''] restAny]),
     (GREETING,
       [startRx [''hi'', ''hello'', ''hey'', ''greetings'', ''good morning'', ''good afternoon'',
                 ''good evening'', ''howdy''] restAny]),
     (FAREWELL,
       [startRx [''bye'', ''goodbye'', ''see you'', ''talk to you later'', ''until next time'',
                 ''have a good day'', ''good night''] restAny]),
     (GRATITUDE,
       [startRx [''thank you'', ''thanks'', ''much appreciated'', ''grateful'', ''appreciate it'']
          restAny]),
     (APOLOGY,
       [startRx [''sorry'', ''i apologize'', ''my apologies'', ''forgive me'', ''excuse me'']
          restAny]),
     (AGREEMENT,
       [startRx [''yes'', ''yeah'', ''yep'', ''sure'', ''of course'', ''absolutely'', ''definitely'',
                 ''i agree'', ''that's right'', ''correct'', ''indeed''] restAny]),
     (DISAGREEMENT,
       [startRx [''no'', ''nope'', ''not really'', ''i disagree'', ''that's incorrect'',
                 ''i don't think so'', ''that's wrong''] restAny]),
     (EXPRESS_POSITIVE,
       [seqs ([Bol,
               Grp 1 (Alt (seqs [lit ''i'', Grp 2 (wordsRx [[CHR 0x27, CHR ''m''], '' am'']), lit '' '',
                                 Grp 3 (wordsRx [''happy'', ''glad'', ''excited'', ''pleased'',
                                                 ''delighted''])])
                          (seqs [lit ''that's '',
                                 Grp 4 (wordsRx [''great'', ''good'', ''wonderful'', ''awesome'',
                                                 ''amazing''])]))]
              @ restAny),
        startRx [''love it'', ''fantastic'', ''excellent'', ''perfect'', ''brilliant'',
                 ''outstanding'', ''superb''] restAny]),
     (EXPRESS_NEGATIVE,
       [seqs ([Bol,
               Grp 1 (Alt (seqs [lit ''i'', Grp 2 (wordsRx [[CHR 0x27, CHR ''m''], '' am'']), lit '' '',
                                 Grp 3 (wordsRx [''sad'', ''upset'', ''angry'', ''frustrated'',
                                                 ''disappointed'', ''annoyed''])])
                          (seqs [lit ''that's '',
                                 Grp 4 (wordsRx [''bad'', ''terrible'', ''awful'', ''horrible'',
                                                 ''disappointing''])]))]
              @ restAny),
        startRx [''hate it'', ''dislike'', ''terrible'', ''awful'', ''horrible'', ''dreadful'',
                 ''unacceptable''] restAny]),
     (FEEDBACK_POSITIVE,
       [startRx [''that was helpful'', ''good job'', ''well done'', ''nice work'',
                 ''you're doing great'', ''that's useful''] restAny]),
     (FEEDBACK_NEGATIVE,
       [seqs ([Bol,
               Grp 1 (alts [seqs [lit ''that '', Grp 2 (wordsRx [''wasn't'', ''was not'']),
                                  lit '' helpful''],
                            lit ''not what i was looking for'', lit ''you didn't understand'',
                            lit ''you misunderstood'', lit ''that's not right''])]
              @ restAny)]),
     (TOPIC_SWITCH,
       [startRx [''let's talk about'', ''changing the subject'', ''on another note'',
                 ''switching gears'', ''moving on to'', ''speaking of''] restAny]),
     (META_COMMUNICATION,
       [startRx [''i'm trying to'', ''my goal is to'', ''what i'm looking for is'',
                 ''the reason i'm asking is'', ''to clarify''] restAny])]"

definition intentionKeywords :: "(IntentionType \<times> string list) list" where
  "intentionKeywords =
    [(QUESTION_FACTUAL, [''what'', ''where'', ''when'', ''who'', ''how'', ''why'', ''which'']),
     (QUESTION_OPINION, [''think'', ''opinion'', ''feel'', ''recommend'', ''suggest'']),
     (QUESTION_CLARIFICATION, [''clarify'', ''explain'', ''mean'', ''understand'', ''confused'']),
     (REQUEST_ACTION, [''help'', ''assist'', ''please'', ''need'', ''want'', ''could you'',
                       ''would you'', ''can you'']),
     (COMMAND, [''search'', ''find'', ''show'', ''display'', ''create'', ''change'', ''update'',
                ''delete'', ''clear'']),
     (GREETING, [''hi'', ''hello'', ''hey'', ''greetings'', ''morning'', ''afternoon'', ''evening'']),
     (FAREWELL, [''bye'', ''goodbye'', ''see you'', ''later'', ''night'', ''leaving'']),
     (GRATITUDE, [''thanks'', ''thank'', ''appreciate'', ''grateful'', ''thankful'']),
     (APOLOGY, [''sorry'', ''apologize'', ''apologies'', ''forgive'', ''mistake'']),
     (AGREEMENT, [''yes'', ''agree'', ''correct'', ''right'', ''indeed'', ''exactly'']),
     (DISAGREEMENT, [''no'', ''disagree'', ''incorrect'', ''wrong'', ''mistaken'',
                     ''don't think so'']),
     (EXPRESS_POSITIVE, [''happy'', ''glad'', ''excited'', ''love'', ''great'', ''good'',
                         ''wonderful'']),
     (EXPRESS_NEGATIVE, [''sad'', ''upset'', ''angry'', ''hate'', ''bad'', ''terrible'',
                         ''frustrated'']),
     (FEEDBACK_POSITIVE, [''helpful'', ''good job'', ''well done'', ''useful'', ''perfect'']),
     (FEEDBACK_NEGATIVE, [''not helpful'', ''didn't help'', ''misunderstood'', ''wrong'',
                          ''incorrect'']),
     (TOPIC_SWITCH, [''change subject'', ''another topic'', ''different topic'', ''speaking of'']),
     (META_COMMUNICATION, [''trying to'', ''my goal'', ''looking for'', ''purpose'',
                           ''conversation''])]"

text \<open>\<open>findRelatedEntities\<close>: all entities, or \<open>undefined\<close> when there are none.\<close>

definition findRelatedEntities :: "IntentionType \<Rightarrow> Entity list option \<Rightarrow> Entity list option" where
  "findRelatedEntities intentionType entities =
     (case entities of
        None \<Rightarrow> None
      | Some es \<Rightarrow> if es = [] then None else Some es)"

text \<open>First pass: one intention for every pattern of the table that matches the text.\<close>

definition patternPass :: "string \<Rightarrow> Entity list option \<Rightarrow> Intention list" where
  "patternPass text entities =
     concat (map (\<lambda>(intentionType, patterns).
        concat (map (\<lambda>pattern.
          if regexTest pattern True text
          then [\<lparr>in_type = intentionType, in_confidence = 0.9,
                 in_relatedEntities = findRelatedEntities intentionType entities,
                 in_metadata = Some (MatchedPattern pattern)\<rparr>]
          else []) patterns)) intentionPatterns)"

text \<open>The test \<open>new RegExp(`\\b${keyword}\\b`, 'i').test(lowerText)\<close>.\<close>

definition keywordPresent :: "string \<Rightarrow> string \<Rightarrow> bool" where
  "keywordPresent keyword lowerText = regexTest (seqs [WordB, lit keyword, WordB]) True lowerText"

text \<open>One iteration of the loop of the second pass, on the intentions detected so far.\<close>

definition keywordStep ::
  "string \<Rightarrow> Entity list option \<Rightarrow> Intention list \<Rightarrow> IntentionType \<times> string list \<Rightarrow> Intention list" where
  "keywordStep lowerText entities detectedIntentions entry =
     (let intentionType = fst entry; keywords = snd entry in
      if list_ex (\<lambda>i. in_type i = intentionType \<and> in_confidence i \<ge> 0.8) detectedIntentions
      then detectedIntentions
      else let matches = filter (\<lambda>keyword. keywordPresent keyword lowerText) keywords in
        if length matches > 0
        then detectedIntentions @
               [\<lparr>in_type = intentionType,
                 in_confidence = min (0.3 + (real (length matches) * 0.2)) 0.85,
                 in_relatedEntities = findRelatedEntities intentionType entities,
                 in_metadata = Some (MatchedKeywords matches)\<rparr>]
        else detectedIntentions)"

definition keywordPass :: "string \<Rightarrow> Entity list option \<Rightarrow> Intention list \<Rightarrow> Intention list" where
  "keywordPass lowerText entities detectedIntentions =
     (if detectedIntentions = [] \<or> in_confidence (hd detectedIntentions) < 0.8
      then foldl (keywordStep lowerText entities) detectedIntentions intentionKeywords
      else detectedIntentions)"

text \<open>The special handling of a trailing question mark.\<close>

definition questionMarkPass :: "string \<Rightarrow> Entity list option \<Rightarrow> Intention list \<Rightarrow> Intention list" where
  "questionMarkPass text entities detectedIntentions =
     (if endsWith text ''?'' \<and>
         \<not> list_ex (\<lambda>i. in_type i = QUESTION_FACTUAL \<or> in_type i = QUESTION_OPINION
                        \<or> in_type i = QUESTION_CLARIFICATION) detectedIntentions
      then detectedIntentions @
             [\<lparr>in_type = QUESTION_FACTUAL, in_confidence = 0.7,
               in_relatedEntities = entities, in_metadata = None\<rparr>]
      else detectedIntentions)"

definition fallbackPass :: "Entity list option \<Rightarrow> Intention list \<Rightarrow> Intention list" where
  "fallbackPass entities detectedIntentions =
     (if length detectedIntentions = 0
      then detectedIntentions @
             [\<lparr>in_type = UNKNOWN, in_confidence = 1.0,
               in_relatedEntities = entities, in_metadata = None\<rparr>]
      else detectedIntentions)"

text \<open>
  \<open>Array.prototype.sort\<close> is stable; with the comparator \<open>b.confidence - a.confidence\<close> it
  is the stable sort by descending confidence.
\<close>

definition sortByConfidence :: "Intention list \<Rightarrow> Intention list" where
  "sortByConfidence xs = sort_key (\<lambda>i. - in_confidence i) xs"

definition detectIntentions :: "string \<Rightarrow> Entity list option \<Rightarrow> Intention list" where
  "detectIntentions text entities =
     (let lowerText = trim (toLowerCase text) in
      sortByConfidence
        (fallbackPass entities
          (questionMarkPass text entities
            (keywordPass lowerText entities
              (patternPass text entities)))))"

text \<open>Where an intention of the output comes from, read off its metadata.\<close>

definition isPatternMatched :: "Intention \<Rightarrow> bool" where
  "isPatternMatched i = (case in_metadata i of Some (MatchedPattern p) \<Rightarrow> True | _ \<Rightarrow> False)"

definition isKeywordMatched :: "Intention \<Rightarrow> bool" where
  "isKeywordMatched i = (case in_metadata i of Some (MatchedKeywords ks) \<Rightarrow> True | _ \<Rightarrow> False)"

section \<open>WorkingMemory (working-memory.ts)\<close>

text \<open>The string value of each member of the enum \<open>IntentionType\<close>.\<close>

fun intentionTypeValue :: "IntentionType \<Rightarrow> string" where
  "intentionTypeValue QUESTION_FACTUAL = ''question_factual''"
| "intentionTypeValue QUESTION_OPINION = ''question_opinion''"
| "intentionTypeValue QUESTION_CLARIFICATION = ''question_clarification''"
| "intentionTypeValue REQUEST_ACTION = ''request_action''"
| "intentionTypeValue SUGGEST_ACTION = ''suggest_action''"
| "intentionTypeValue COMMAND = ''command''"
| "intentionTypeValue GREETING = ''greeting''"
| "intentionTypeValue FAREWELL = ''farewell''"
| "intentionTypeValue GRATITUDE = ''gratitude''"
| "intentionTypeValue APOLOGY = ''apology''"
| "intentionTypeValue AGREEMENT = ''agreement''"
| "intentionTypeValue DISAGREEMENT = ''disagreement''"
| "intentionTypeValue EXPRESS_POSITIVE = ''express_positive''"
| "intentionTypeValue EXPRESS_NEGATIVE = ''express_negative''"
| "intentionTypeValue EXPRESS_NEUTRAL = ''express_neutral''"
| "intentionTypeValue FEEDBACK_POSITIVE = ''feedback_positive''"
| "intentionTypeValue FEEDBACK_NEGATIVE = ''feedback_negative''"
| "intentionTypeValue TOPIC_SWITCH = ''topic_switch''"
| "intentionTypeValue META_COMMUNICATION = ''meta_communication''"
| "intentionTypeValue SYSTEM_INFORM = ''system_inform''"
| "intentionTypeValue SYSTEM_REQUEST = ''system_request''"
| "intentionTypeValue SYSTEM_SUGGEST = ''system_suggest''"
| "intentionTypeValue SYSTEM_ACKNOWLEDGE = ''system_acknowledge''"
| "intentionTypeValue SYSTEM_CLARIFY = ''system_clarify''"
| "intentionTypeValue UNKNOWN = ''unknown''"

text \<open>An \<open>EnhancedMessage\<close>, with the properties the engine reads.\<close>

record EnhancedMessage =
  em_content :: string
  em_sender :: Sender
  em_timestamp :: int
  em_detectedIntentions :: "Intention list option"
  em_primaryIntention :: "Intention option"
  em_entities :: "Entity list option"

record FocusState =
  fs_activeTopics :: "string list"
  fs_activeEntities :: "Entity list"
  fs_recentIntentions :: "Intention list"
  fs_attentionPriorities :: "(string \<times> real) list"

record WMConversationState =
  wcs_startTime :: int
  wcs_messageCount :: nat
  wcs_activeTopics :: "string list"
  wcs_userEngagementLevel :: "real option"

record ConversationContext =
  cc_currentFocus :: FocusState
  cc_recentMessages :: "EnhancedMessage list"
  cc_entityMap :: "(string \<times> Entity) list"
  cc_conversationState :: WMConversationState

definition maxRecentMessages :: nat where
  "maxRecentMessages = 10"

definition entityExpirationTime :: int where
  "entityExpirationTime = 30 * 60 * 1000"

text \<open>The constructor and \<open>reset\<close> build the same empty context.\<close>

definition reset :: "int \<Rightarrow> ConversationContext" where
  "reset now =
     \<lparr>cc_currentFocus = \<lparr>fs_activeTopics = [], fs_activeEntities = [], fs_recentIntentions = [],
                          fs_attentionPriorities = []\<rparr>,
      cc_recentMessages = [],
      cc_entityMap = [],
      cc_conversationState = \<lparr>wcs_startTime = now, wcs_messageCount = 0, wcs_activeTopics = [],
                               wcs_userEngagementLevel = Some 0.5\<rparr>\<rparr>"

text \<open>\<open>entity.normalizedValue || entity.value.toLowerCase()\<close>: an empty string is falsy.\<close>

definition normalizedOf :: "Entity \<Rightarrow> string" where
  "normalizedOf entity =
     (case en_normalizedValue entity of
        Some v \<Rightarrow> if v \<noteq> [] then v else toLowerCase (en_value entity)
      | None \<Rightarrow> toLowerCase (en_value entity))"

definition entityKeyOf :: "Entity \<Rightarrow> string" where
  "entityKeyOf entity = entityTypeValue (en_type entity) @ '':'' @ normalizedOf entity"

text \<open>\<open>x || 1\<close> and \<open>x || 0\<close> on optional numbers.\<close>

definition mentionCountOr1 :: "Entity \<Rightarrow> nat" where
  "mentionCountOr1 e = (case en_mentionCount e of None \<Rightarrow> 1 | Some n \<Rightarrow> if n = 0 then 1 else n)"

definition lastMentionedOr0 :: "Entity \<Rightarrow> int" where
  "lastMentionedOr0 e = (case en_lastMentionedAt e of None \<Rightarrow> 0 | Some t \<Rightarrow> t)"

definition mergeAttributes ::
  "(string \<times> jsval) list option \<Rightarrow> (string \<times> jsval) list option \<Rightarrow> (string \<times> jsval) list" where
  "mergeAttributes a b = foldl (\<lambda>acc kv. AList.update (fst kv) (snd kv) acc) (orEmpty a) (orEmpty b)"

definition updateOneEntity :: "int \<Rightarrow> (string \<times> Entity) list \<Rightarrow> Entity \<Rightarrow> (string \<times> Entity) list" where
  "updateOneEntity now entityMap entity =
     (let normalizedValue = normalizedOf entity;
          entityKey = entityKeyOf entity
      in case map_of entityMap entityKey of
           Some existingEntity \<Rightarrow>
             AList.update entityKey
               (existingEntity\<lparr>en_lastMentionedAt := Some now,
                                en_mentionCount := Some (mentionCountOr1 existingEntity + 1),
                                en_confidence := max (en_confidence existingEntity) (en_confidence entity),
                                en_attributes := Some (mergeAttributes (en_attributes existingEntity)
                                                                        (en_attributes entity))\<rparr>)
               entityMap
         | None \<Rightarrow>
             AList.update entityKey
               (entity\<lparr>en_firstMentionedAt := Some now,
                        en_lastMentionedAt := Some now,
                        en_mentionCount := Some 1,
                        en_normalizedValue := Some normalizedValue\<rparr>)
               entityMap)"

definition cleanupExpiredEntities :: "int \<Rightarrow> (string \<times> Entity) list \<Rightarrow> (string \<times> Entity) list" where
  "cleanupExpiredEntities now entityMap =
     filter (\<lambda>kv. \<not> (now - lastMentionedOr0 (snd kv) > entityExpirationTime)) entityMap"

definition updateEntities :: "int \<Rightarrow> Entity list \<Rightarrow> ConversationContext \<Rightarrow> ConversationContext" where
  "updateEntities now entities ctx =
     ctx\<lparr>cc_entityMap := cleanupExpiredEntities now (foldl (updateOneEntity now) (cc_entityMap ctx) entities)\<rparr>"

definition updateIntentions :: "Intention list \<Rightarrow> ConversationContext \<Rightarrow> ConversationContext" where
  "updateIntentions intentions ctx =
     ctx\<lparr>cc_currentFocus := (cc_currentFocus ctx)
            \<lparr>fs_recentIntentions := take 5 (take 2 intentions @ fs_recentIntentions (cc_currentFocus ctx))\<rparr>\<rparr>"

definition pushTopic :: "string list \<Rightarrow> Entity \<Rightarrow> string list" where
  "pushTopic activeTopics topicEntity =
     (if en_value topicEntity \<notin> set activeTopics then activeTopics @ [en_value topicEntity]
      else activeTopics)"

definition updateTopics :: "EnhancedMessage \<Rightarrow> ConversationContext \<Rightarrow> ConversationContext" where
  "updateTopics message ctx =
     (let topicEntities = filter (\<lambda>e. en_type e = TOPIC \<or> en_type e = CONCEPT)
                                 (orEmpty (em_entities message));
          added = foldl pushTopic (wcs_activeTopics (cc_conversationState ctx)) topicEntities;
          limited = (if length added > 5 then drop (length added - 5) added else added)
      in ctx\<lparr>cc_conversationState := (cc_conversationState ctx)\<lparr>wcs_activeTopics := limited\<rparr>\<rparr>)"

definition engagementOrDefault :: "real option \<Rightarrow> real" where
  "engagementOrDefault l = (case l of None \<Rightarrow> 0.5 | Some x \<Rightarrow> if x = 0 then 0.5 else x)"

definition updateEngagementLevel :: "EnhancedMessage \<Rightarrow> ConversationContext \<Rightarrow> ConversationContext" where
  "updateEngagementLevel message ctx =
     (let n = length (em_content message);
          a1 = (if n > 100 then 0.1 else if n > 50 then 0.05 else if n < 10 then - 0.05 else 0);
          a2 = (if CHR ''?'' \<in> set (em_content message) then a1 + 0.05 else a1);
          adjustment =
            (case em_primaryIntention message of
               Some p \<Rightarrow> if in_type p = COMMAND \<or> in_type p = REQUEST_ACTION then a2 + 0.1 else a2
             | None \<Rightarrow> a2)
      in ctx\<lparr>cc_conversationState := (cc_conversationState ctx)
               \<lparr>wcs_userEngagementLevel :=
                  Some (max 0 (min 1 (engagementOrDefault
                          (wcs_userEngagementLevel (cc_conversationState ctx)) + adjustment)))\<rparr>\<rparr>)"

definition activityScore :: "int \<Rightarrow> Entity \<Rightarrow> int" where
  "activityScore now e = (int (mentionCountOr1 e) * 10000) - (now - lastMentionedOr0 e)"

definition getActiveEntities :: "int \<Rightarrow> ConversationContext \<Rightarrow> Entity list" where
  "getActiveEntities now ctx =
     take 10 (sort_key (\<lambda>e. - activityScore now e) (map snd (cc_entityMap ctx)))"

text \<open>The three loops of \<open>calculateAttentionPriorities\<close>, over the items with their index.\<close>

definition rankPriorities :: "(string \<times> real) list \<Rightarrow> string list \<Rightarrow> (string \<times> real) list" where
  "rankPriorities priorities keys =
     foldl (\<lambda>acc ik. AList.update (snd ik) (1 - (real (fst ik) / real (length keys))) acc)
           priorities (zip [0..<length keys] keys)"

definition calculateAttentionPriorities :: "int \<Rightarrow> ConversationContext \<Rightarrow> (string \<times> real) list" where
  "calculateAttentionPriorities now ctx =
     (let p1 = rankPriorities []
                 (map (\<lambda>entity. ''entity:'' @ entityTypeValue (en_type entity) @ '':''
                                  @ (case en_normalizedValue entity of
                                       Some v \<Rightarrow> if v \<noteq> [] then v else en_value entity
                                     | None \<Rightarrow> en_value entity))
                      (getActiveEntities now ctx));
          p2 = rankPriorities p1
                 (map (\<lambda>intention. ''intention:'' @ intentionTypeValue (in_type intention))
                      (fs_recentIntentions (cc_currentFocus ctx)))
      in rankPriorities p2
           (map (\<lambda>topic. ''topic:'' @ topic) (wcs_activeTopics (cc_conversationState ctx))))"

definition refreshFocusState :: "int \<Rightarrow> ConversationContext \<Rightarrow> ConversationContext" where
  "refreshFocusState now ctx =
     ctx\<lparr>cc_currentFocus :=
           \<lparr>fs_activeTopics = wcs_activeTopics (cc_conversationState ctx),
            fs_activeEntities = getActiveEntities now ctx,
            fs_recentIntentions = fs_recentIntentions (cc_currentFocus ctx),
            fs_attentionPriorities = calculateAttentionPriorities now ctx\<rparr>\<rparr>"

definition pushMessage :: "EnhancedMessage \<Rightarrow> ConversationContext \<Rightarrow> ConversationContext" where
  "pushMessage message ctx =
     (let pushed = cc_recentMessages ctx @ [message] in
      ctx\<lparr>cc_recentMessages := (if length pushed > maxRecentMessages then tl pushed else pushed),
          cc_conversationState := (cc_conversationState ctx)
             \<lparr>wcs_messageCount := wcs_messageCount (cc_conversationState ctx) + 1\<rparr>\<rparr>)"

definition addMessage :: "int \<Rightarrow> EnhancedMessage \<Rightarrow> ConversationContext \<Rightarrow> ConversationContext" where
  "addMessage now message ctx =
     (let c1 = pushMessage message ctx;
          c2 = (case em_entities message of
                  Some es \<Rightarrow> if length es > 0 then updateEntities now es c1 else c1
                | None \<Rightarrow> c1);
          c3 = (case em_detectedIntentions message of
                  Some ints \<Rightarrow> if length ints > 0 then updateIntentions ints c2 else c2
                | None \<Rightarrow> c2);
          c4 = updateTopics message c3;
          c5 = (if em_sender message = User then updateEngagementLevel message c4 else c4)
      in refreshFocusState now c5)"

definition focusOnEntity :: "int \<Rightarrow> Entity \<Rightarrow> ConversationContext \<Rightarrow> ConversationContext" where
  "focusOnEntity now entity ctx =
     (let normalizedValue = normalizedOf entity;
          entityKey = entityKeyOf entity;
          entityMap =
            (case map_of (cc_entityMap ctx) entityKey of
               Some existingEntity \<Rightarrow>
                 AList.update entityKey (existingEntity\<lparr>en_lastMentionedAt := Some now\<rparr>)
                   (cc_entityMap ctx)
             | None \<Rightarrow>
                 AList.update entityKey
                   (entity\<lparr>en_firstMentionedAt := Some now,
                            en_lastMentionedAt := Some now,
                            en_mentionCount := Some 1,
                            en_normalizedValue := Some normalizedValue\<rparr>)
                   (cc_entityMap ctx))
      in refreshFocusState now (ctx\<lparr>cc_entityMap := entityMap\<rparr>))"

definition focusOnTopic :: "int \<Rightarrow> string \<Rightarrow> ConversationContext \<Rightarrow> ConversationContext" where
  "focusOnTopic now topic ctx =
     refreshFocusState now
       (ctx\<lparr>cc_conversationState := (cc_conversationState ctx)
              \<lparr>wcs_activeTopics :=
                 filter (\<lambda>t. t \<noteq> topic) (wcs_activeTopics (cc_conversationState ctx)) @ [topic]\<rparr>\<rparr>)"

text \<open>The caps of the three bounded collections.\<close>

definition withinCaps :: "ConversationContext \<Rightarrow> bool" where
  "withinCaps ctx =
     (length (cc_recentMessages ctx) \<le> 10
      \<and> length (fs_recentIntentions (cc_currentFocus ctx)) \<le> 5
      \<and> length (wcs_activeTopics (cc_conversationState ctx)) \<le> 5)"

section \<open>InteractionPatternTracker (interaction-pattern-tracker.ts)\<close>

datatype PatternType = SEQUENTIAL | TEMPORAL | FREQUENCY | CONTEXTUAL

text \<open>
  An event of the history: \<open>data\<close> holds the message, its primary intention type and its
  entities.
\<close>

record InteractionEvent =
  ev_timestamp :: int
  ev_type :: string
  ev_message :: EnhancedMessage
  ev_intention :: IntentionType
  ev_entities :: "Entity list"

text \<open>
  The metadata the three miners write.  A sequence key \<open>a\<rightarrow>b\<close> or \<open>a\<rightarrow>b\<rightarrow>c\<close> is the list of
  its intention types (no type name contains the arrow).
\<close>

datatype PatternMeta =
    SequenceMeta "IntentionType list"
  | TemporalMeta nat
  | FrequentIntentionMeta IntentionType real
  | FrequentEntityMeta string string string

datatype PatternElements = PartElements "string list" | EventElements "InteractionEvent list"

record InteractionPattern =
  ip_type :: PatternType
  ip_description :: string
  ip_confidence :: real
  ip_occurrences :: nat
  ip_firstObservedAt :: int
  ip_lastObservedAt :: int
  ip_elements :: PatternElements
  ip_metadata :: "PatternMeta option"

record PatternTracker =
  pt_interactionHistory :: "InteractionEvent list"
  pt_patterns :: "InteractionPattern list"



text \<open>\<open>tbl[k] = (tbl[k] || 0) + 1\<close> on an object whose keys keep their insertion order.\<close>

definition bump :: "('k \<times> nat) list \<Rightarrow> 'k \<Rightarrow> ('k \<times> nat) list" where
  "bump tbl k = AList.update k (case map_of tbl k of None \<Rightarrow> 1 | Some n \<Rightarrow> n + 1) tbl"

definition userMessageEvents :: "PatternTracker \<Rightarrow> InteractionEvent list" where
  "userMessageEvents st =
     filter (\<lambda>event. ev_type event = ''message'' \<and> em_sender (ev_message event) = User)
            (pt_interactionHistory st)"

text \<open>The keys of the 2-step and of the 3-step loop, in the order the loops visit them.\<close>

fun pairKeys :: "IntentionType list \<Rightarrow> IntentionType list list" where
  "pairKeys (a # b # rest) = [a, b] # pairKeys (b # rest)"
| "pairKeys xs = []"



text \<open>\<open>formatIntention\<close>: lower case, underscores to spaces, first letter of each word raised.\<close>

fun capitalizeWords :: "bool \<Rightarrow> string \<Rightarrow> string" where
  "capitalizeWords prevWord [] = []"
| "capitalizeWords prevWord (c # cs) =
     (if isWordChar c \<and> \<not> prevWord then toUpperChar c else c) # capitalizeWords (isWordChar c) cs"

definition formatIntention :: "string \<Rightarrow> string" where
  "formatIntention intentionType =
     capitalizeWords False (map (\<lambda>c. if c = CHR ''_'' then CHR '' '' else c) (toLowerCase intentionType))"

definition confidenceFor :: "nat \<Rightarrow> real" where
  "confidenceFor count = min (0.5 + (real count * 0.1)) 0.9"

definition hasSequenceKey :: "IntentionType list \<Rightarrow> InteractionPattern \<Rightarrow> bool" where
  "hasSequenceKey sequence pattern =
     (ip_type pattern = SEQUENTIAL \<and> ip_metadata pattern = Some (SequenceMeta sequence))"



text \<open>
  \<open>new Date(timestamp).getHours()\<close> is the hour of the day in local time; \<open>tz\<close> is the
  offset of local time in milliseconds.
\<close>

definition getHours :: "int \<Rightarrow> int \<Rightarrow> nat" where
  "getHours tz timestamp = nat (((timestamp + tz) div 3600000) mod 24)"

definition hasTimeRange :: "nat \<Rightarrow> InteractionPattern \<Rightarrow> bool" where
  "hasTimeRange hourNum pattern =
     (ip_type pattern = TEMPORAL \<and> ip_metadata pattern = Some (TemporalMeta hourNum))"

definition temporalStep ::
  "int \<Rightarrow> int \<Rightarrow> InteractionEvent list \<Rightarrow> InteractionPattern list \<Rightarrow> nat \<times> nat \<Rightarrow> InteractionPattern list" where
  "temporalStep tz now userMessages patterns entry =
     (let hourNum = fst entry; count = snd entry in
      if count \<ge> 3
      then
        if \<not> list_ex (hasTimeRange hourNum) patterns
        then patterns @
          [\<lparr>ip_type = TEMPORAL,
            ip_description = ''User is often active around ''
               @ string_of_nat (if hourNum mod 12 = 0 then 12 else hourNum mod 12)
               @ '' '' @ (if hourNum < 12 then ''AM'' else ''PM''),
            ip_confidence = confidenceFor count,
            ip_occurrences = count,
            ip_firstObservedAt = now,
            ip_lastObservedAt = now,
            ip_elements = EventElements (filter (\<lambda>e. getHours tz (ev_timestamp e) = hourNum) userMessages),
            ip_metadata = Some (TemporalMeta hourNum)\<rparr>]
        else map (\<lambda>pattern.
               if hasTimeRange hourNum pattern
               then pattern\<lparr>ip_occurrences := ip_occurrences pattern + 1,
                            ip_lastObservedAt := now,
                            ip_confidence := confidenceFor (ip_occurrences pattern + 1)\<rparr>
               else pattern) patterns
      else patterns)"

text \<open>The keys of \<open>hourDistribution\<close> are integers: \<open>Object.entries\<close> lists them ascending.\<close>

definition detectTemporalPatterns :: "int \<Rightarrow> int \<Rightarrow> PatternTracker \<Rightarrow> PatternTracker" where
  "detectTemporalPatterns tz now st =
     (if length (pt_interactionHistory st) < 5 then st
      else let userMessages = userMessageEvents st in
        if length userMessages < 5 then st
        else
          let hourDistribution = foldl bump [] (map (\<lambda>event. getHours tz (ev_timestamp event)) userMessages)
          in st\<lparr>pt_patterns := foldl (temporalStep tz now userMessages) (pt_patterns st)
                                       (sort_key fst hourDistribution)\<rparr>)"














text \<open>The sequence signatures of the sequential patterns, one per record.\<close>

definition sequentialKeys :: "InteractionPattern list \<Rightarrow> IntentionType list option list" where
  "sequentialKeys patterns =
     map (\<lambda>p. case ip_metadata p of Some (SequenceMeta k) \<Rightarrow> Some k | _ \<Rightarrow> None)
         (filter (\<lambda>p. ip_type p = SEQUENTIAL) patterns)"

section \<open>Core values (core-values.ts)\<close>

record ValueManifestation =
  vm_context :: string
  vm_behavior :: string

record CoreValue =
  cv_id :: string
  cv_description :: string
  cv_importance :: real
  cv_manifestations :: "ValueManifestation list"

definition humanAgencyManifestations :: "ValueManifestation list" where
  "humanAgencyManifestations =
    [\<lparr>vm_context = ''information_sharing'',
      vm_behavior = ''Present information clearly without manipulation or bias''\<rparr>,
     \<lparr>vm_context = ''decision_making'',
      vm_behavior = ''Provide options with transparent pros and cons, never pushing a single choice''\<rparr>,
     \<lparr>vm_context = ''disagreement'',
      vm_behavior = ''Respect the user's right to disagree and maintain their own perspective''\<rparr>,
     \<lparr>vm_context = ''system_functionality'',
      vm_behavior = ''Provide clear explanations of system capabilities and limitations''\<rparr>,
     \<lparr>vm_context = ''persuasion'',
      vm_behavior = ''Never use manipulative tactics to influence user decisions''\<rparr>]"

definition truthfulnessManifestations :: "ValueManifestation list" where
  "truthfulnessManifestations =
    [\<lparr>vm_context = ''knowledge_sharing'',
      vm_behavior = ''Acknowledge uncertainty and limitations in knowledge''\<rparr>,
     \<lparr>vm_context = ''factual_claims'',
      vm_behavior = ''Verify claims before presenting them as facts''\<rparr>,
     \<lparr>vm_context = ''mistake_handling'',
      vm_behavior = ''Acknowledge and correct mistakes promptly''\<rparr>,
     \<lparr>vm_context = ''source_attribution'',
      vm_behavior = ''Clearly attribute information to sources when appropriate''\<rparr>,
     \<lparr>vm_context = ''speculation'',
      vm_behavior = ''Clearly distinguish between facts and speculation or opinion''\<rparr>]"

definition wellbeingManifestations :: "ValueManifestation list" where
  "wellbeingManifestations =
    [\<lparr>vm_context = ''emotional_support'',
      vm_behavior = ''Respond with empathy to emotional expressions''\<rparr>,
     \<lparr>vm_context = ''sensitive_topics'',
      vm_behavior = ''Approach sensitive topics with care and respect''\<rparr>,
     \<lparr>vm_context = ''harmful_requests'',
      vm_behavior = ''Decline requests that could cause harm''\<rparr>,
     \<lparr>vm_context = ''user_frustration'',
      vm_behavior = ''Acknowledge frustration and work toward resolution''\<rparr>,
     \<lparr>vm_context = ''continuous_engagement'',
      vm_behavior = ''Respect cognitive and emotional energy, avoiding overwhelming interactions''\<rparr>]"

definition privacyManifestations :: "ValueManifestation list" where
  "privacyManifestations =
    [\<lparr>vm_context = ''data_collection'',
      vm_behavior = ''Be transparent about what data is collected and how it's used''\<rparr>,
     \<lparr>vm_context = ''personal_information'',
      vm_behavior = ''Never pressure users to share unnecessary personal information''\<rparr>,
     \<lparr>vm_context = ''security_practices'',
      vm_behavior = ''Promote secure practices without causing undue fear''\<rparr>,
     \<lparr>vm_context = ''data_sharing'',
      vm_behavior = ''Never share user data with external systems without explicit permission''\<rparr>,
     \<lparr>vm_context = ''local_first'',
      vm_behavior = ''Prioritize local processing and storage when possible''\<rparr>]"

definition inclusivityManifestations :: "ValueManifestation list" where
  "inclusivityManifestations =
    [\<lparr>vm_context = ''language_use'',
      vm_behavior = ''Use inclusive, non-discriminatory language''\<rparr>,
     \<lparr>vm_context = ''diverse_perspectives'',
      vm_behavior = ''Consider and represent diverse perspectives''\<rparr>,
     \<lparr>vm_context = ''accessibility'',
      vm_behavior = ''Ensure interactions are accessible to users with varying abilities''\<rparr>,
     \<lparr>vm_context = ''cultural_awareness'',
      vm_behavior = ''Demonstrate cultural awareness and sensitivity''\<rparr>,
     \<lparr>vm_context = ''bias_mitigation'',
      vm_behavior = ''Actively work to identify and mitigate biases in responses''\<rparr>]"

definition authenticityManifestations :: "ValueManifestation list" where
  "authenticityManifestations =
    [\<lparr>vm_context = ''identity'',
      vm_behavior = ''Be transparent about being an AI system''\<rparr>,
     \<lparr>vm_context = ''capabilities'',
      vm_behavior = ''Be honest about capabilities and limitations''\<rparr>,
     \<lparr>vm_context = ''reasoning'',
      vm_behavior = ''Provide genuine reasoning rather than made-up explanations''\<rparr>,
     \<lparr>vm_context = ''engagement'',
      vm_behavior = ''Engage in genuine dialogue rather than scripted responses''\<rparr>,
     \<lparr>vm_context = ''uncertainty'',
      vm_behavior = ''Express genuine uncertainty rather than false confidence''\<rparr>]"

definition humanAgency :: CoreValue where
  "humanAgency =
     \<lparr>cv_id = ''human_agency'',
      cv_description = ''Respect and enhance the user's autonomy and decision-making power'',
      cv_importance = 0.95,
      cv_manifestations = humanAgencyManifestations\<rparr>"

definition truthfulness :: CoreValue where
  "truthfulness =
     \<lparr>cv_id = ''truthfulness'',
      cv_description = ''Present accurate information and acknowledge limitations and uncertainty'',
      cv_importance = 0.9,
      cv_manifestations = truthfulnessManifestations\<rparr>"

definition userWellbeing :: CoreValue where
  "userWellbeing =
     \<lparr>cv_id = ''user_wellbeing'',
      cv_description = ''Prioritize the psychological and emotional wellbeing of users'',
      cv_importance = 0.85,
      cv_manifestations = wellbeingManifestations\<rparr>"

definition privacySecurity :: CoreValue where
  "privacySecurity =
     \<lparr>cv_id = ''privacy_security'',
      cv_description = ''Respect user privacy and promote data security'',
      cv_importance = 0.8,
      cv_manifestations = privacyManifestations\<rparr>"

definition inclusivity :: CoreValue where
  "inclusivity =
     \<lparr>cv_id = ''inclusivity'',
      cv_description = ''Ensure interactions are inclusive and accessible to all users'',
      cv_importance = 0.75,
      cv_manifestations = inclusivityManifestations\<rparr>"

definition authenticity :: CoreValue where
  "authenticity =
     \<lparr>cv_id = ''authenticity'',
      cv_description = ''Engage in genuine, non-deceptive interactions'',
      cv_importance = 0.7,
      cv_manifestations = authenticityManifestations\<rparr>"

definition coreValues :: "CoreValue list" where
  "coreValues = [humanAgency, truthfulness, userWellbeing, privacySecurity, inclusivity, authenticity]"

section \<open>The context as a JavaScript object\<close>

text \<open>
  \<open>matchesContextPattern\<close> reads the context by property name and compares values through
  \<open>JSON.stringify\<close>.  Each record is given as the JSON object of its properties, in the
  order the code writes them; two values have the same \<open>JSON.stringify\<close> exactly when their
  trees are equal.
\<close>

definition jsonOfEntity :: "TrackedEntity \<Rightarrow> jsval" where
  "jsonOfEntity e =
     JObj [(''id'', JStr (te_id e)), (''name'', JStr (te_name e)), (''type'', JStr (te_type e)),
           (''firstMentioned'', JNum (real_of_int (te_firstMentioned e))),
           (''lastMentioned'', JNum (real_of_int (te_lastMentioned e))),
           (''attributes'', JObj (te_attributes e)),
           (''salience'', JNum (te_salience e))]"

definition jsonOfIntention :: "UserIntention \<Rightarrow> jsval" where
  "jsonOfIntention i =
     JObj ([(''id'', JStr (ui_id i)), (''type'', JStr (ui_type i)),
            (''firstDetected'', JNum (real_of_int (ui_firstDetected i))),
            (''lastDetected'', JNum (real_of_int (ui_lastDetected i))),
            (''confidence'', JNum (ui_confidence i)),
            (''status'', JStr (ui_status i))]
           @ (case ui_relatedEntities i of
                None \<Rightarrow> []
              | Some ids \<Rightarrow> [(''relatedEntities'', JArr (map JStr ids))]))"

definition jsonOfConversationState :: "ConversationState \<Rightarrow> jsval" where
  "jsonOfConversationState s =
     JObj [(''id'', JStr (cs_id s)), (''stage'', JStr (cs_stage s)),
           (''activeTopics'', JArr (map JStr (cs_activeTopics s))),
           (''recentSentiment'', JNum (cs_recentSentiment s)),
           (''engagementLevel'', JNum (cs_engagementLevel s)),
           (''userSatisfaction'', JNum (cs_userSatisfaction s))]"

definition jsonOfFactor :: "EnvironmentalFactor \<Rightarrow> jsval" where
  "jsonOfFactor f =
     JObj [(''type'', JStr (ef_type f)), (''value'', ef_value f),
           (''confidence'', JNum (ef_confidence f)),
           (''timestamp'', JNum (real_of_int (ef_timestamp f)))]"

definition jsonOfPreference :: "UserPreference \<Rightarrow> jsval" where
  "jsonOfPreference p =
     JObj [(''id'', JStr (up_id p)), (''category'', JStr (up_category p)), (''value'', up_value p),
           (''confidence'', JNum (up_confidence p)),
           (''lastUpdated'', JNum (real_of_int (up_lastUpdated p))),
           (''source'', JStr (up_source p))]"

definition jsonOfMessage :: "Message \<Rightarrow> jsval" where
  "jsonOfMessage m =
     JObj [(''id'', JStr (msg_id m)), (''conversationId'', JStr (msg_conversationId m)),
           (''role'', JStr (msg_role m)),
           (''content'', (case msg_content m of TextContent s \<Rightarrow> JStr s | RecordContent obj \<Rightarrow> JObj obj)),
           (''timestamp'', JNum (real_of_int (msg_timestamp m))),
           (''metadata'', JObj (msg_metadata m))]"

text \<open>The own properties of a context, by name.\<close>

definition contextProperties :: "Context \<Rightarrow> (string \<times> jsval) list" where
  "contextProperties context =
     [(''entities'', JArr (map jsonOfEntity (ctx_entities context))),
      (''userIntentions'', JArr (map jsonOfIntention (ctx_userIntentions context))),
      (''conversationState'', jsonOfConversationState (ctx_conversationState context)),
      (''environmentalFactors'', JArr (map jsonOfFactor (ctx_environmentalFactors context))),
      (''userPreferences'', JArr (map jsonOfPreference (ctx_userPreferences context))),
      (''recentMessages'', JArr (map jsonOfMessage (ctx_recentMessages context))),
      (''conversationId'', JStr (ctx_conversationId context))]"

section \<open>ValueHierarchy (value-hierarchy.ts)\<close>

text \<open>
  The key of a context map: \<open>'default'\<close>, or \<open>JSON.stringify(contextPattern)\<close>, which stands
  for the pattern it is parsed back into.
\<close>

datatype ContextKey = DefaultKey | PatternKey "(string \<times> jsval) list"

record ValueHierarchy =
  vh_values :: "(string \<times> CoreValue) list"
  vh_customPriorities :: "(string \<times> (string \<times> (ContextKey \<times> real) list) list) list"

definition newValueHierarchy :: "CoreValue list \<Rightarrow> ValueHierarchy" where
  "newValueHierarchy values =
     \<lparr>vh_values = foldl (\<lambda>m v. AList.update (cv_id v) v m) [] values,
      vh_customPriorities = []\<rparr>"

text \<open>\<open>ValueHierarchy.matchesContextPattern\<close>: every entry of the pattern equals the property.\<close>

definition matchesContextPattern :: "Context \<Rightarrow> (string \<times> jsval) list \<Rightarrow> bool" where
  "matchesContextPattern context pattern =
     list_all (\<lambda>kv. case map_of (contextProperties context) (fst kv) of
                       None \<Rightarrow> False
                     | Some contextValue \<Rightarrow> contextValue = snd kv) pattern"

datatype ValueError = UnknownValue string string

text \<open>\<open>setCustomPriority\<close> throws for an unknown value id.\<close>

definition setCustomPriority ::
  "string \<Rightarrow> string \<Rightarrow> real \<Rightarrow> (string \<times> jsval) list option \<Rightarrow> ValueHierarchy
     \<Rightarrow> ValueError + ValueHierarchy" where
  "setCustomPriority value1Id value2Id priorityFactor contextPattern st =
     (if map_of (vh_values st) value1Id = None \<or> map_of (vh_values st) value2Id = None
      then Inl (UnknownValue value1Id value2Id)
      else
        let contextKey = (case contextPattern of None \<Rightarrow> DefaultKey | Some p \<Rightarrow> PatternKey p);
            value1Map = (case map_of (vh_customPriorities st) value1Id of None \<Rightarrow> [] | Some m \<Rightarrow> m);
            contextMap = (case map_of value1Map value2Id of None \<Rightarrow> [] | Some m \<Rightarrow> m)
        in Inr (st\<lparr>vh_customPriorities :=
                    AList.update value1Id
                      (AList.update value2Id (AList.update contextKey priorityFactor contextMap) value1Map)
                      (vh_customPriorities st)\<rparr>))"

text \<open>The first entry of a context map, other than the default, whose pattern matches.\<close>

fun firstMatchingPattern :: "Context \<Rightarrow> (ContextKey \<times> real) list \<Rightarrow> real option" where
  "firstMatchingPattern context [] = None"
| "firstMatchingPattern context ((DefaultKey, priority) # rest) = firstMatchingPattern context rest"
| "firstMatchingPattern context ((PatternKey pattern, priority) # rest) =
     (if matchesContextPattern context pattern then Some priority
      else firstMatchingPattern context rest)"

definition getCustomPriorityInContext :: "ValueHierarchy \<Rightarrow> string \<Rightarrow> string \<Rightarrow> Context \<Rightarrow> real" where
  "getCustomPriorityInContext st value1Id value2Id context =
     (case map_of (vh_customPriorities st) value1Id of
        None \<Rightarrow> 0
      | Some value1Map \<Rightarrow>
          (case map_of value1Map value2Id of
             None \<Rightarrow> 0
           | Some contextMap \<Rightarrow>
               (case firstMatchingPattern context contextMap of
                  Some priority \<Rightarrow> priority
                | None \<Rightarrow>
                    (case map_of contextMap DefaultKey of
                       Some priority \<Rightarrow> priority
                     | None \<Rightarrow> 0))))"

text \<open>\<open>hasIntentionOfType\<close>: some intention type contains one of the given strings.\<close>

definition hasIntentionOfType :: "Context \<Rightarrow> string list \<Rightarrow> bool" where
  "hasIntentionOfType context types =
     list_ex (\<lambda>intention. list_ex (\<lambda>type. includes_str (ui_type intention) type) types)
             (ctx_userIntentions context)"

definition sensitiveTopics :: "string list" where
  "sensitiveTopics = [''health'', ''politics'', ''religion'', ''finance'', ''personal crisis'']"

definition hasSensitiveTopic :: "Context \<Rightarrow> bool" where
  "hasSensitiveTopic context =
     list_ex (\<lambda>topic. list_ex (\<lambda>sensitive. includes_str topic sensitive) sensitiveTopics)
             (cs_activeTopics (ctx_conversationState context))"

definition getManifestationContextRelevance :: "ValueManifestation \<Rightarrow> Context \<Rightarrow> real" where
  "getManifestationContextRelevance manifestation context =
     (let contextType = vm_context manifestation in
      if contextType = ''information_sharing''
      then (if hasIntentionOfType context [''query'', ''inquiry'', ''information_request''] then 0.9 else 0)
      else if contextType = ''decision_making''
      then (if hasIntentionOfType context [''decision'', ''choice'', ''selection''] then 1.0 else 0)
      else if contextType = ''disagreement''
      then (if cs_recentSentiment (ctx_conversationState context) < - 0.3 then 0.8 else 0)
      else if contextType = ''emotional_support''
      then (if cs_recentSentiment (ctx_conversationState context) < - 0.5 then 0.9 else 0)
      else if contextType = ''sensitive_topics''
      then (if hasSensitiveTopic context then 0.7 else 0)
      else if contextType = ''knowledge_sharing''
      then (if hasIntentionOfType context [''question'', ''factual_query'', ''explanation_request'']
            then 0.8 else 0)
      else if list_ex (\<lambda>message.
                  case msg_content message of
                    TextContent content \<Rightarrow>
                      content \<noteq> [] \<and> includes_str (toLowerCase content) (toLowerCase contextType)
                  | RecordContent obj \<Rightarrow> False) (ctx_recentMessages context)
      then 0.4
      else 0.1)"

text \<open>The loop of \<open>getValueApplicability\<close> over the manifestations.\<close>

definition getValueApplicability :: "CoreValue \<Rightarrow> Context \<Rightarrow> real" where
  "getValueApplicability v context =
     foldl (\<lambda>applicability manifestation.
              let contextRelevance = getManifestationContextRelevance manifestation context in
              if contextRelevance > 0 then max applicability (0.5 + (contextRelevance * 0.5))
              else applicability)
           0.5 (cv_manifestations v)"

definition resolveConflict :: "ValueHierarchy \<Rightarrow> CoreValue \<Rightarrow> CoreValue \<Rightarrow> Context \<Rightarrow> CoreValue" where
  "resolveConflict st value1 value2 context =
     (let customPriority = getCustomPriorityInContext st (cv_id value1) (cv_id value2) context in
      if customPriority \<noteq> 0 then (if customPriority > 0 then value1 else value2)
      else
        let value1Applicability = getValueApplicability value1 context;
            value2Applicability = getValueApplicability value2 context;
            applicabilityDifference = value1Applicability - value2Applicability
        in if \<bar>applicabilityDifference\<bar> > 0.3
           then (if applicabilityDifference > 0 then value1 else value2)
           else if cv_importance value1 \<ge> cv_importance value2 then value1 else value2)"

section \<open>ContextualValueApplicability (contextual-value-applicability.ts)\<close>

record ApplicabilityEnhancement =
  ae_valueId :: string
  ae_contextPattern :: "(string \<times> jsval) list"
  ae_applicabilityModifier :: real












section \<open>EntityRecognizer (entity-recognizer.ts)\<close>

text \<open>Character classes of the tables.\<close>

definition upperRx :: regex where
  "upperRx = Cls [CRange CHR ''A'' CHR ''Z'']"

definition lowerRx :: regex where
  "lowerRx = Cls [CRange CHR ''a'' CHR ''z'']"

definition digitRx :: regex where
  "digitRx = Cls [CDigit]"

definition spaceRx :: regex where
  "spaceRx = Cls [CSpace]"

text \<open>\<open>[A-Z][a-z]+\<close>, \<open>[A-Z][a-z]*\<close> and \<open>[a-z]+(\s+[a-z]+)*\<close> with its inner group.\<close>

definition capWordRx :: regex where
  "capWordRx = Seq upperRx (plus lowerRx)"

definition capStartRx :: regex where
  "capStartRx = Seq upperRx (Star lowerRx)"

definition lowerWordsRx :: "nat \<Rightarrow> regex" where
  "lowerWordsRx g = Seq (plus lowerRx) (Star (Grp g (Seq (plus spaceRx) (plus lowerRx))))"

definition timeUnits :: "string list" where
  "timeUnits = [''second'', ''minute'', ''hour'', ''day'', ''week'', ''month'', ''year'']"

text \<open>
  The table of \<open>initializePatterns\<close>.  \<open>recognizeEntities\<close> rebuilds every pattern as
  \<open>new RegExp(pattern.source, 'g')\<close>, so the flag \<open>i\<close> of a literal is not in force: all
  patterns match case-sensitively.
\<close>

definition entityPatterns :: "(EntityType \<times> regex list) list" where
  "entityPatterns =
    [(PERSON,
       [seqs [WordB, Grp 1 (wordsRx [''Mr'', ''Mrs'', ''Ms'', ''Dr'', ''Prof'']), lit ''.'',
              plus spaceRx, capWordRx, WordB],
        seqs [WordB, capWordRx, plus spaceRx, capWordRx, WordB]]),
     (LOCATION,
       [seqs [WordB, Grp 1 (wordsRx [''in'', ''at'', ''from'', ''to'']), plus spaceRx,
              Grp 2 (Seq capWordRx (Star (Grp 3 (Seq (plus spaceRx) capWordRx)))), WordB],
        seqs [WordB, capWordRx, plus spaceRx,
              Grp 1 (wordsRx [''Street'', ''Avenue'', ''Road'', ''Blvd'', ''Drive'', ''Lane'', ''Place'',
                              ''Court'', ''Way'']), WordB]]),
     (ORGANIZATION,
       [seqs [WordB, capStartRx, Star spaceRx,
              Grp 1 (wordsRx [''Inc'', ''LLC'', ''Corp'', ''Corporation'', ''Company'', ''Co'', ''Ltd'']),
              WordB],
        seqs [WordB, Grp 1 (wordsRx [''University'', ''College'']), lit '' of '', capWordRx, WordB]]),
     (DATE_TIME,
       [seqs [WordB,
              Grp 1 (wordsRx [''January'', ''February'', ''March'', ''April'', ''May'', ''June'', ''July'',
                              ''August'', ''September'', ''October'', ''November'', ''December'']),
              plus spaceRx, digitRx, opt digitRx,
              opt (Grp 2 (wordsRx [''st'', ''nd'', ''rd'', ''th''])),
              opt (Grp 3 (seqs [lit '','', plus spaceRx, digitRx, digitRx, digitRx, digitRx])),
              WordB],
        seqs [WordB, digitRx, opt digitRx,
              Cls [CChar CHR ''/'', CChar CHR ''-'', CChar CHR ''.''],
              digitRx, opt digitRx,
              Cls [CChar CHR ''/'', CChar CHR ''-'', CChar CHR ''.''],
              digitRx, digitRx, opt (Seq digitRx (opt digitRx)), WordB],
        seqs [WordB, Grp 1 (wordsRx [''today'', ''tomorrow'', ''yesterday'', ''next'', ''last'']),
              plus spaceRx, Grp 2 (wordsRx [''day'', ''week'', ''month'', ''year'']), WordB],
        seqs [WordB,
              Grp 1 (wordsRx [''Monday'', ''Tuesday'', ''Wednesday'', ''Thursday'', ''Friday'',
                              ''Saturday'', ''Sunday'']), WordB],
        seqs [WordB, digitRx, opt digitRx, lit '':'', digitRx, digitRx, Star spaceRx,
              opt (Grp 1 (wordsRx [''am'', ''pm'', ''AM'', ''PM''])), WordB]]),
     (DURATION,
       [seqs [WordB, plus digitRx, plus spaceRx, Grp 1 (wordsRx timeUnits), opt (lit ''s''), WordB],
        seqs [WordB, Grp 1 (wordsRx [''several'', ''a few'', ''many'']), plus spaceRx,
              Grp 2 (wordsRx timeUnits), opt (lit ''s''), WordB]]),
     (PRODUCT,
       [seqs [WordB, capStartRx, plus spaceRx, plus digitRx, WordB],
        seqs [WordB, capWordRx, plus spaceRx,
              Grp 1 (wordsRx [''Pro'', ''Lite'', ''Max'', ''Ultra'', ''Plus'']), WordB]]),
     (EVENT,
       [seqs [WordB,
              Grp 1 (wordsRx [''conference'', ''meeting'', ''wedding'', ''party'', ''festival'',
                              ''concert'', ''seminar'', ''webinar'', ''workshop'']), WordB]]),
     (TOPIC,
       [seqs [WordB,
              Grp 1 (wordsRx [''regarding'', ''about'', ''on the topic of'', ''concerning'',
                              ''discussing'']),
              plus spaceRx, Grp 2 (lowerWordsRx 3), WordB]]),
     (TASK,
       [seqs [WordB, Grp 1 (wordsRx [''task'', ''job'', ''assignment'', ''project'', ''work item'']),
              WordB],
        seqs [WordB, Grp 1 (wordsRx [''need to'', ''have to'', ''must'', ''should'']), plus spaceRx,
              Grp 2 (lowerWordsRx 3), WordB]]),
     (PREFERENCE,
       [seqs [WordB, Grp 1 (wordsRx [''prefer'', ''like'', ''love'', ''enjoy'', ''hate'', ''dislike'']),
              plus spaceRx, Grp 2 (lowerWordsRx 3), WordB],
        seqs [WordB, Grp 1 (wordsRx [''favorite'', ''preferred'']), plus spaceRx,
              Grp 2 (lowerWordsRx 3), WordB]])]"

definition entityLists :: "(EntityType \<times> string list) list" where
  "entityLists =
    [(LOCATION,
       [''New York'', ''Los Angeles'', ''Chicago'', ''Houston'', ''Phoenix'', ''Philadelphia'',
        ''San Antonio'', ''San Diego'', ''Dallas'', ''San Jose'', ''London'', ''Paris'', ''Tokyo'',
        ''Beijing'', ''Moscow'', ''Berlin'', ''Rome'']),
     (ORGANIZATION,
       [''Google'', ''Microsoft'', ''Apple'', ''Amazon'', ''Facebook'', ''Netflix'', ''Tesla'',
        ''SpaceX'', ''IBM'', ''Intel'', ''AMD'', ''Nvidia'', ''Samsung'', ''Zoom'', ''Twitter'',
        ''LinkedIn'']),
     (PRODUCT,
       [''iPhone'', ''iPad'', ''MacBook'', ''Surface'', ''Windows'', ''Android'', ''Chrome'',
        ''Firefox'', ''Safari'', ''Office'', ''Teams'', ''Slack'']),
     (TOPIC,
       [''AI'', ''machine learning'', ''data science'', ''web development'', ''mobile development'',
        ''cloud computing'', ''cybersecurity'', ''blockchain'', ''cryptocurrency'', ''climate change'',
        ''renewable energy'', ''politics'', ''economics'', ''health'', ''education'', ''technology''])]"

text \<open>The expression \<open>\b${escapeRegExp(item)}\b\<close> for an item of the lists (none has a special character).\<close>

definition itemRegex :: "string \<Rightarrow> regex" where
  "itemRegex item = seqs [WordB, lit item, WordB]"

definition conceptRegex :: regex where
  "conceptRegex = seqs [WordB, capWordRx, Star (Grp 1 (Seq (plus spaceRx) capWordRx)), WordB]"

definition substring :: "string \<Rightarrow> nat \<Rightarrow> nat \<Rightarrow> string" where
  "substring s i j = take (j - i) (drop i s)"

text \<open>
  The value of a pattern match: group 2 for a location, topic, task or preference when the
  group took part in the match and is not empty, the whole match otherwise; trimmed.
\<close>

definition matchValue :: "EntityType \<Rightarrow> string \<Rightarrow> nat \<times> mstate \<Rightarrow> string" where
  "matchValue entityType text match =
     (let whole = substring text (fst match) (fst (snd match));
          group2 = (case map_of (snd (snd (snd (snd match)))) 2 of
                      None \<Rightarrow> []
                    | Some g \<Rightarrow> substring text (fst g) (snd g))
      in trim (if entityType \<in> {LOCATION, TOPIC, TASK, PREFERENCE} \<and> group2 \<noteq> [] then group2
               else whole))"

definition candidate :: "EntityType \<Rightarrow> string \<Rightarrow> real \<Rightarrow> nat \<times> mstate \<Rightarrow> Entity" where
  "candidate entityType v confidence match =
     \<lparr>en_type = entityType,
      en_value = v,
      en_normalizedValue = None,
      en_startIndex = Some (fst match),
      en_endIndex = Some (fst (snd match)),
      en_confidence = confidence,
      en_attributes = None,
      en_firstMentionedAt = None,
      en_lastMentionedAt = None,
      en_mentionCount = None\<rparr>"

text \<open>
  First pass: every match of every pattern, at confidence \<open>0.8\<close>.  The result is \<open>None\<close>
  when a loop over the matches of a pattern does not end.
\<close>

definition patternMatches :: "string \<Rightarrow> EntityType \<Rightarrow> regex \<Rightarrow> Entity list option" where
  "patternMatches text entityType pattern =
     map_option (map (\<lambda>match. candidate entityType (matchValue entityType text match) 0.8 match))
                (execAll pattern False 0 None text)"

definition patternEntities :: "string \<Rightarrow> Entity list option" where
  "patternEntities text =
     map_option concat
       (those (concat (map (\<lambda>entry. map (patternMatches text (fst entry)) (snd entry))
                           entityPatterns)))"

definition startOr0 :: "Entity \<Rightarrow> nat" where
  "startOr0 e = (case en_startIndex e of None \<Rightarrow> 0 | Some s \<Rightarrow> s)"

definition endOr0 :: "Entity \<Rightarrow> nat" where
  "endOr0 e = (case en_endIndex e of None \<Rightarrow> 0 | Some s \<Rightarrow> s)"

text \<open>The overlap test of the second and third pass, for a match from \<open>idx\<close> to \<open>endIdx\<close>.\<close>

definition overlapsExisting :: "nat \<Rightarrow> nat \<Rightarrow> Entity list \<Rightarrow> bool" where
  "overlapsExisting idx endIdx entities =
     list_ex (\<lambda>entity. (idx \<ge> startOr0 entity \<and> idx < endOr0 entity)
                       \<or> (endIdx > startOr0 entity \<and> endIdx \<le> endOr0 entity)) entities"

definition pushUnlessOverlap ::
  "EntityType \<Rightarrow> string \<Rightarrow> real \<Rightarrow> Entity list \<Rightarrow> nat \<times> mstate \<Rightarrow> Entity list" where
  "pushUnlessOverlap entityType text confidence entities match =
     (if overlapsExisting (fst match) (fst (snd match)) entities then entities
      else entities @ [candidate entityType (substring text (fst match) (fst (snd match)))
                                 confidence match])"

text \<open>Second pass: the matches of the known items, at confidence \<open>0.9\<close>.\<close>

definition itemStep :: "string \<Rightarrow> Entity list option \<Rightarrow> EntityType \<times> string \<Rightarrow> Entity list option" where
  "itemStep text acc entry =
     (case acc of
        None \<Rightarrow> None
      | Some entities \<Rightarrow>
          map_option (foldl (pushUnlessOverlap (fst entry) text 0.9) entities)
                     (execAll (itemRegex (snd entry)) True 0 None text))"

definition listEntities :: "string \<Rightarrow> Entity list \<Rightarrow> Entity list option" where
  "listEntities text entities =
     foldl (itemStep text) (Some entities)
           (concat (map (\<lambda>entry. map (\<lambda>item. (fst entry, item)) (snd entry)) entityLists))"

text \<open>
  Third pass: capitalised phrases not covered so far, at confidence \<open>0.6\<close>.  Its overlap
  test reads \<open>startIndex\<close> and \<open>endIndex\<close> as they are: a comparison with an undefined
  bound is false.
\<close>

definition conceptOverlaps :: "nat \<Rightarrow> nat \<Rightarrow> Entity list \<Rightarrow> bool" where
  "conceptOverlaps idx endIdx entities =
     list_ex (\<lambda>entity. case (en_startIndex entity, en_endIndex entity) of
                         (Some s, Some t) \<Rightarrow> (idx \<ge> s \<and> idx < t) \<or> (endIdx > s \<and> endIdx \<le> t)
                       | _ \<Rightarrow> False) entities"

definition pushConcept :: "string \<Rightarrow> Entity list \<Rightarrow> nat \<times> mstate \<Rightarrow> Entity list" where
  "pushConcept text entities match =
     (if conceptOverlaps (fst match) (fst (snd match)) entities then entities
      else entities @ [candidate CONCEPT (substring text (fst match) (fst (snd match))) 0.6 match])"

definition extractConcepts :: "string \<Rightarrow> Entity list \<Rightarrow> Entity list option" where
  "extractConcepts text entities =
     map_option (foldl (pushConcept text) entities) (execAll conceptRegex False 0 None text)"

text \<open>The candidates of the three passes, before overlaps are resolved.\<close>

definition candidateEntities :: "string \<Rightarrow> Entity list option" where
  "candidateEntities text =
     (case patternEntities text of
        None \<Rightarrow> None
      | Some e1 \<Rightarrow>
          (case listEntities text e1 of
             None \<Rightarrow> None
           | Some e2 \<Rightarrow> extractConcepts text e2))"

definition spanLength :: "Entity \<Rightarrow> int" where
  "spanLength e = int (endOr0 e) - int (startOr0 e)"

text \<open>The loop of \<open>resolveOverlappingEntities\<close>, with the last push; \<open>result\<close> grows at the front here.\<close>

fun resolveLoop :: "Entity \<Rightarrow> Entity list \<Rightarrow> Entity list" where
  "resolveLoop currentEntity [] = [currentEntity]"
| "resolveLoop currentEntity (nextEntity # rest) =
     (if startOr0 currentEntity \<le> startOr0 nextEntity \<and> endOr0 currentEntity > startOr0 nextEntity
      then
        if en_confidence nextEntity > en_confidence currentEntity
        then resolveLoop nextEntity rest
        else if en_confidence nextEntity = en_confidence currentEntity
                \<and> spanLength nextEntity > spanLength currentEntity
        then resolveLoop nextEntity rest
        else resolveLoop currentEntity rest
      else currentEntity # resolveLoop nextEntity rest)"

definition sortByStart :: "Entity list \<Rightarrow> Entity list" where
  "sortByStart entities = sort_key startOr0 entities"

definition resolveOverlappingEntities :: "int \<Rightarrow> Entity list \<Rightarrow> Entity list" where
  "resolveOverlappingEntities now entities =
     (if length entities \<le> 1 then entities
      else
        let sortedEntities = sortByStart entities;
            result = resolveLoop (hd sortedEntities) (tl sortedEntities)
        in map (\<lambda>entity. entity\<lparr>en_firstMentionedAt := Some now,
                                   en_lastMentionedAt := Some now,
                                   en_mentionCount := Some 1\<rparr>) result)"

definition recognizeEntities :: "int \<Rightarrow> string \<Rightarrow> Entity list option" where
  "recognizeEntities now text = map_option (resolveOverlappingEntities now) (candidateEntities text)"

text \<open>The span of an entity: its bounds, both defined, non-empty and inside a text of length \<open>n\<close>.\<close>

definition spanWithin :: "nat \<Rightarrow> Entity \<Rightarrow> bool" where
  "spanWithin n e =
     (case (en_startIndex e, en_endIndex e) of
        (Some s, Some t) \<Rightarrow> s < t \<and> t \<le> n
      | _ \<Rightarrow> False)"

text \<open>Two entities overlap when their spans share a position.\<close>

definition spansOverlap :: "Entity \<Rightarrow> Entity \<Rightarrow> bool" where
  "spansOverlap a b = (startOr0 a < endOr0 b \<and> startOr0 b < endOr0 a)"

text \<open>
  \<open>a\<close> is preferred to \<open>b\<close> by the comparison of the loop: higher confidence, or the same
  confidence and a span at least as long.
\<close>

definition preferredTo :: "Entity \<Rightarrow> Entity \<Rightarrow> bool" where
  "preferredTo a b =
     (en_confidence a > en_confidence b
      \<or> (en_confidence a = en_confidence b \<and> spanLength a \<ge> spanLength b))"

text \<open>The identity of a candidate: its type and span, whatever mention data was added.\<close>

definition sameCandidate :: "Entity \<Rightarrow> Entity \<Rightarrow> bool" where
  "sameCandidate a b =
     (en_type a = en_type b \<and> en_value a = en_value b \<and> en_startIndex a = en_startIndex b
      \<and> en_endIndex a = en_endIndex b \<and> en_confidence a = en_confidence b)"

section \<open>Decay of salience and confidence\<close>

lemma cleanupEntry_other:
  "fst entry \<noteq> k \<Longrightarrow> map_of (et_entities (cleanupEntry now entry st)) k = map_of (et_entities st) k"
  by (simp add: cleanupEntry_def Let_def delete_conv update_conv split: option.splits)

lemma cleanupLoop_other:
  "k \<notin> fst ` set es \<Longrightarrow> map_of (et_entities (cleanupLoop now es st)) k = map_of (et_entities st) k"
proof (induction es arbitrary: st)
  case Nil
  then show ?case by simp
next
  case (Cons entry es)
  then have "fst entry \<noteq> k" and "k \<notin> fst ` set es" by auto
  with Cons.IH show ?case by (simp add: cleanupEntry_other)
qed

lemma cleanupEntry_self:
  assumes "map_of (et_entities st) k = Some e"
  shows "map_of (et_entities (cleanupEntry now (k, l) st)) k =
     (if l - real_of_int (now - te_lastMentioned e) / 600000 \<le> 0 then None
      else Some (e\<lparr>te_salience := max 0.1 (te_salience e * 0.95)\<rparr>))"
  using assms by (simp add: cleanupEntry_def Let_def delete_conv update_conv)

lemma cleanupLoop_self:
  "distinct (map fst es) \<Longrightarrow> map_of es k = Some l \<Longrightarrow> map_of (et_entities st) k = Some e \<Longrightarrow>
   map_of (et_entities (cleanupLoop now es st)) k =
     (if l - real_of_int (now - te_lastMentioned e) / 600000 \<le> 0 then None
      else Some (e\<lparr>te_salience := max 0.1 (te_salience e * 0.95)\<rparr>))"
proof (induction es arbitrary: st)
  case Nil
  then show ?case by simp
next
  case (Cons entry es)
  obtain k0 l0 where entry: "entry = (k0, l0)" by (cases entry)
  show ?case
  proof (cases "k0 = k")
    case True
    with Cons.prems(1) entry have notin: "k \<notin> fst ` set es" by auto
    from True Cons.prems(2) entry have l: "l0 = l" by simp
    have "map_of (et_entities (cleanupLoop now (entry # es) st)) k =
          map_of (et_entities (cleanupEntry now (k, l) st)) k"
      using cleanupLoop_other[OF notin] entry True l by simp
    then show ?thesis using cleanupEntry_self[OF Cons.prems(3)] by simp
  next
    case False
    with Cons.prems entry have d: "distinct (map fst es)" and m: "map_of es k = Some l" by auto
    have "map_of (et_entities (cleanupEntry now entry st)) k = Some e"
      using False entry Cons.prems(3) by (simp add: cleanupEntry_other)
    from Cons.IH[OF d m this] show ?thesis by simp
  qed
qed

lemma lifespans_keys:
  "fst ` set (updateIntentionLifespans now act) \<subseteq> fst ` set act"
proof (induction act)
  case Nil
  then show ?case by simp
next
  case (Cons a act)
  obtain k0 i0 where a: "a = (k0, i0)" by (cases a)
  have "fst ` set (updateIntentionLifespans now ((k0, i0) # act))
        \<subseteq> insert k0 (fst ` set (updateIntentionLifespans now act))"
    by (simp add: Let_def) blast
  also have "\<dots> \<subseteq> insert k0 (fst ` set act)"
    using Cons.IH by blast
  finally show ?case unfolding a by simp
qed

lemma lifespans_lookup:
  "distinct (map fst act) \<Longrightarrow> map_of act k = Some i \<Longrightarrow>
   map_of (updateIntentionLifespans now act) k =
     (if now - ui_lastDetected i > 600000 then None
      else if now - ui_lastDetected i > 300000
      then Some (i\<lparr>ui_confidence := max 0.1 (ui_confidence i * 0.8)\<rparr>)
      else Some i)"
proof (induction act)
  case Nil
  then show ?case by simp
next
  case (Cons a act)
  obtain k0 i0 where a: "a = (k0, i0)" by (cases a)
  show ?case
  proof (cases "k0 = k")
    case True
    with Cons.prems a have i: "i0 = i" and notin: "k \<notin> fst ` set act" by auto
    from notin lifespans_keys[of now act] have "k \<notin> fst ` set (updateIntentionLifespans now act)"
      by blast
    then have none: "map_of (updateIntentionLifespans now act) k = None"
      by (simp add: map_of_eq_None_iff)
    show ?thesis unfolding a using True i none by (simp add: Let_def)
  next
    case False
    with Cons.prems a have d: "distinct (map fst act)" and m: "map_of act k = Some i" by auto
    from Cons.IH[OF d m] False show ?thesis unfolding a by (simp add: Let_def)
  qed
qed

section \<open>Properties of the intention detector\<close>

lemma set_sortByConfidence: "set (sortByConfidence xs) = set xs"
  by (simp add: sortByConfidence_def)

lemma length_sortByConfidence: "length (sortByConfidence xs) = length xs"
  by (simp add: sortByConfidence_def)

lemma sorted_sortByConfidence:
  "sorted_wrt (\<lambda>a b. in_confidence a \<ge> in_confidence b) (sortByConfidence xs)"
proof -
  have "sorted (map (\<lambda>i. - in_confidence i) (sortByConfidence xs))"
    unfolding sortByConfidence_def by (rule sorted_sort_key)
  then show ?thesis by (simp add: sorted_map)
qed

lemma fallbackPass_nonempty: "fallbackPass entities xs \<noteq> []"
  by (simp add: fallbackPass_def)

lemma patternPass_member:
  assumes "i \<in> set (patternPass text entities)"
  shows "in_confidence i = 0.9 \<and> isPatternMatched i"
proof -
  from assms obtain ty pats p where
    "i \<in> set (if regexTest p True text
          then [\<lparr>in_type = ty, in_confidence = 0.9,
                 in_relatedEntities = findRelatedEntities ty entities,
                 in_metadata = Some (MatchedPattern p)\<rparr>]
          else [])"
    unfolding patternPass_def by auto
  then have "i = \<lparr>in_type = ty, in_confidence = 0.9,
                 in_relatedEntities = findRelatedEntities ty entities,
                 in_metadata = Some (MatchedPattern p)\<rparr>"
    by (simp split: if_splits)
  then show ?thesis by (simp add: isPatternMatched_def)
qed

text \<open>An intention as the keyword pass scores it, from a non-empty list of matched keywords.\<close>

definition keywordScored :: "Intention \<Rightarrow> bool" where
  "keywordScored i =
     (\<exists>ms. ms \<noteq> [] \<and> in_metadata i = Some (MatchedKeywords ms)
        \<and> in_confidence i = min (0.3 + real (length ms) * 0.2) 0.85)"

lemma keywordStep_member:
  assumes "i \<in> set (keywordStep lowerText entities detected entry)"
  shows "i \<in> set detected \<or> keywordScored i"
proof (cases "i \<in> set detected")
  case True
  then show ?thesis by simp
next
  case False
  define ms where "ms = filter (\<lambda>keyword. keywordPresent keyword lowerText) (snd entry)"
  from assms False have "ms \<noteq> [] \<and> i = \<lparr>in_type = fst entry,
                 in_confidence = min (0.3 + (real (length ms) * 0.2)) 0.85,
                 in_relatedEntities = findRelatedEntities (fst entry) entities,
                 in_metadata = Some (MatchedKeywords ms)\<rparr>"
    unfolding keywordStep_def ms_def by (simp add: Let_def split: if_splits)
  then have "keywordScored i" unfolding keywordScored_def by auto
  then show ?thesis by simp
qed

lemma keywordFold_member:
  "i \<in> set (foldl (keywordStep lowerText entities) detected entries) \<Longrightarrow>
   i \<in> set detected \<or> keywordScored i"
proof (induction entries arbitrary: detected)
  case Nil
  then show ?case by simp
next
  case (Cons entry entries)
  from Cons.IH[of "keywordStep lowerText entities detected entry"] Cons.prems
  have "i \<in> set (keywordStep lowerText entities detected entry) \<or> keywordScored i" by simp
  then show ?case using keywordStep_member by blast
qed

lemma keywordPass_member:
  "i \<in> set (keywordPass lowerText entities detected) \<Longrightarrow> i \<in> set detected \<or> keywordScored i"
  unfolding keywordPass_def using keywordFold_member by (simp split: if_splits)

lemma keywordScored_conf:
  assumes "keywordScored i"
  shows "in_confidence i \<le> 0.85 \<and> isKeywordMatched i \<and> \<not> isPatternMatched i"
proof -
  from assms obtain ms where ms: "in_metadata i = Some (MatchedKeywords ms)"
    and c: "in_confidence i = min (0.3 + real (length ms) * 0.2) 0.85"
    unfolding keywordScored_def by blast
  have "min (0.3 + real (length ms) * 0.2) 0.85 \<le> (0.85 :: real)" by (rule min.cobounded2)
  with c have "in_confidence i \<le> 0.85" by simp
  with ms show ?thesis by (simp add: isKeywordMatched_def isPatternMatched_def)
qed

lemma keywordPass_after_pattern:
  assumes "patternPass text entities \<noteq> []"
  shows "keywordPass lowerText entities (patternPass text entities) = patternPass text entities"
proof -
  from assms have "hd (patternPass text entities) \<in> set (patternPass text entities)" by simp
  then have "in_confidence (hd (patternPass text entities)) = 0.9"
    using patternPass_member by blast
  with assms show ?thesis by (simp add: keywordPass_def)
qed

lemma questionMarkPass_member:
  "i \<in> set (questionMarkPass text entities detected) \<Longrightarrow>
   i \<in> set detected \<or> (in_confidence i = 0.7 \<and> in_metadata i = None)"
  unfolding questionMarkPass_def by (auto split: if_splits)

lemma fallbackPass_member:
  "i \<in> set (fallbackPass entities detected) \<Longrightarrow>
   i \<in> set detected \<or> (in_confidence i = 1 \<and> in_metadata i = None)"
  unfolding fallbackPass_def by (auto split: if_splits)

text \<open>Every intention of the output, by the pass that produced it.\<close>

lemma detectIntentions_member:
  assumes "i \<in> set (detectIntentions text entities)"
  shows "(i \<in> set (patternPass text entities) \<and> in_confidence i = 0.9 \<and> isPatternMatched i)
       \<or> (patternPass text entities = [] \<and> keywordScored i)
       \<or> (in_confidence i = 0.7 \<and> in_metadata i = None)
       \<or> (in_confidence i = 1 \<and> in_metadata i = None)"
proof -
  let ?p = "patternPass text entities"
  let ?k = "keywordPass (trim (toLowerCase text)) entities ?p"
  from assms have "i \<in> set (fallbackPass entities (questionMarkPass text entities ?k))"
    by (simp add: detectIntentions_def Let_def set_sortByConfidence)
  then consider "in_confidence i = 1 \<and> in_metadata i = None"
    | "in_confidence i = 0.7 \<and> in_metadata i = None" | "i \<in> set ?k"
    using fallbackPass_member questionMarkPass_member by blast
  then show ?thesis
  proof cases
    case 1
    then show ?thesis by simp
  next
    case 2
    then show ?thesis by simp
  next
    case 3
    show ?thesis
    proof (cases "?p = []")
      case True
      with 3 keywordPass_member[of i "trim (toLowerCase text)" entities ?p]
      have "keywordScored i" by simp
      with True show ?thesis by simp
    next
      case False
      with 3 have "i \<in> set ?p" by (simp add: keywordPass_after_pattern)
      then show ?thesis using patternPass_member by blast
    qed
  qed
qed


lemma patternPass_empty:
  assumes "\<forall>(ty, pats) \<in> set intentionPatterns. \<forall>p \<in> set pats. \<not> regexTest p True text"
  shows "patternPass text entities = []"
proof -
  have "\<And>entry. entry \<in> set intentionPatterns \<Longrightarrow>
      (case entry of (intentionType, patterns) \<Rightarrow>
        concat (map (\<lambda>pattern.
          if regexTest pattern True text
          then [\<lparr>in_type = intentionType, in_confidence = 0.9,
                 in_relatedEntities = findRelatedEntities intentionType entities,
                 in_metadata = Some (MatchedPattern pattern)\<rparr>]
          else []) patterns)) = []"
  proof -
    fix entry assume e: "entry \<in> set intentionPatterns"
    obtain ty pats where entry: "entry = (ty, pats)" by (cases entry)
    with e assms have "\<forall>p \<in> set pats. \<not> regexTest p True text" by blast
    then show "(case entry of (intentionType, patterns) \<Rightarrow>
        concat (map (\<lambda>pattern.
          if regexTest pattern True text
          then [\<lparr>in_type = intentionType, in_confidence = 0.9,
                 in_relatedEntities = findRelatedEntities intentionType entities,
                 in_metadata = Some (MatchedPattern pattern)\<rparr>]
          else []) patterns)) = []"
      unfolding entry by simp
  qed
  then show ?thesis unfolding patternPass_def by simp
qed

lemma keywordStep_none:
  assumes "\<forall>kw \<in> set (snd entry). \<not> keywordPresent kw lowerText"
  shows "keywordStep lowerText entities detected entry = detected"
proof -
  from assms have "filter (\<lambda>keyword. keywordPresent keyword lowerText) (snd entry) = []"
    by (simp add: filter_empty_conv)
  then show ?thesis by (simp add: keywordStep_def Let_def)
qed

lemma keywordFold_none:
  "\<forall>entry \<in> set entries. \<forall>kw \<in> set (snd entry). \<not> keywordPresent kw lowerText \<Longrightarrow>
   foldl (keywordStep lowerText entities) detected entries = detected"
  by (induction entries) (simp_all add: keywordStep_none)

lemma keywordPass_none:
  assumes "\<forall>(ty, kws) \<in> set intentionKeywords. \<forall>kw \<in> set kws. \<not> keywordPresent kw lowerText"
  shows "keywordPass lowerText entities detected = detected"
proof -
  from assms have "\<forall>entry \<in> set intentionKeywords. \<forall>kw \<in> set (snd entry). \<not> keywordPresent kw lowerText"
    by auto
  then show ?thesis by (simp add: keywordPass_def keywordFold_none)
qed

lemma detectIntentions_conf_le_1:
  assumes "i \<in> set (detectIntentions t e)"
  shows "in_confidence i \<le> 1"
proof -
  from detectIntentions_member[OF assms] consider "in_confidence i = 0.9" | "keywordScored i"
    | "in_confidence i = 0.7" | "in_confidence i = 1" by blast
  then show ?thesis
  proof cases
    case 2
    then have "in_confidence i \<le> 0.85" using keywordScored_conf by blast
    then show ?thesis by simp
  qed simp_all
qed

section \<open>Caps of the working memory\<close>

text \<open>\<open>addMessage\<close>, \<open>reset\<close> and \<open>focusOnEntity\<close> keep the three collections within their caps.\<close>

lemma refreshFocusState_fields:
  "cc_recentMessages (refreshFocusState now ctx) = cc_recentMessages ctx"
  "fs_recentIntentions (cc_currentFocus (refreshFocusState now ctx)) = fs_recentIntentions (cc_currentFocus ctx)"
  "wcs_activeTopics (cc_conversationState (refreshFocusState now ctx)) = wcs_activeTopics (cc_conversationState ctx)"
  by (simp_all add: refreshFocusState_def)

lemma updateTopics_fields:
  "cc_recentMessages (updateTopics m ctx) = cc_recentMessages ctx"
  "fs_recentIntentions (cc_currentFocus (updateTopics m ctx)) = fs_recentIntentions (cc_currentFocus ctx)"
  "length (wcs_activeTopics (cc_conversationState (updateTopics m ctx))) \<le> 5"
  by (simp_all add: updateTopics_def Let_def)

lemma updateEngagementLevel_fields:
  "cc_recentMessages (updateEngagementLevel m ctx) = cc_recentMessages ctx"
  "fs_recentIntentions (cc_currentFocus (updateEngagementLevel m ctx)) = fs_recentIntentions (cc_currentFocus ctx)"
  "wcs_activeTopics (cc_conversationState (updateEngagementLevel m ctx)) = wcs_activeTopics (cc_conversationState ctx)"
  by (simp_all add: updateEngagementLevel_def Let_def)

lemma updateIntentions_fields:
  "cc_recentMessages (updateIntentions is ctx) = cc_recentMessages ctx"
  "length (fs_recentIntentions (cc_currentFocus (updateIntentions is ctx))) \<le> 5"
  by (simp_all add: updateIntentions_def)

lemma updateEntities_fields:
  "cc_recentMessages (updateEntities now es ctx) = cc_recentMessages ctx"
  "fs_recentIntentions (cc_currentFocus (updateEntities now es ctx)) = fs_recentIntentions (cc_currentFocus ctx)"
  by (simp_all add: updateEntities_def)

lemma pushMessage_fields:
  "length (cc_recentMessages ctx) \<le> 10 \<Longrightarrow> length (cc_recentMessages (pushMessage m ctx)) \<le> 10"
  "fs_recentIntentions (cc_currentFocus (pushMessage m ctx)) = fs_recentIntentions (cc_currentFocus ctx)"
  by (simp_all add: pushMessage_def Let_def maxRecentMessages_def)

lemma addMessage_withinCaps:
  assumes "length (cc_recentMessages ctx) \<le> 10"
    and "length (fs_recentIntentions (cc_currentFocus ctx)) \<le> 5"
  shows "withinCaps (addMessage now m ctx)"
proof -
  define c1 where "c1 = pushMessage m ctx"
  define c2 where "c2 = (case em_entities m of
                  Some es \<Rightarrow> if length es > 0 then updateEntities now es c1 else c1
                | None \<Rightarrow> c1)"
  define c3 where "c3 = (case em_detectedIntentions m of
                  Some ints \<Rightarrow> if length ints > 0 then updateIntentions ints c2 else c2
                | None \<Rightarrow> c2)"
  define c4 where "c4 = updateTopics m c3"
  define c5 where "c5 = (if em_sender m = User then updateEngagementLevel m c4 else c4)"
  have r: "addMessage now m ctx = refreshFocusState now c5"
    by (simp only: addMessage_def Let_def c1_def c2_def c3_def c4_def c5_def)
  have m1: "length (cc_recentMessages c1) \<le> 10" and i1: "length (fs_recentIntentions (cc_currentFocus c1)) \<le> 5"
    using assms by (simp_all add: c1_def pushMessage_fields)
  have m2: "length (cc_recentMessages c2) \<le> 10" and i2: "length (fs_recentIntentions (cc_currentFocus c2)) \<le> 5"
    using m1 i1 by (simp_all add: c2_def updateEntities_fields split: option.splits)
  have m3: "length (cc_recentMessages c3) \<le> 10" and i3: "length (fs_recentIntentions (cc_currentFocus c3)) \<le> 5"
    using m2 i2 by (simp_all add: c3_def updateIntentions_fields split: option.splits)
  have m4: "length (cc_recentMessages c4) \<le> 10" and i4: "length (fs_recentIntentions (cc_currentFocus c4)) \<le> 5"
    and t4: "length (wcs_activeTopics (cc_conversationState c4)) \<le> 5"
    using m3 i3 by (simp_all add: c4_def updateTopics_fields)
  have "length (cc_recentMessages c5) \<le> 10" "length (fs_recentIntentions (cc_currentFocus c5)) \<le> 5"
    "length (wcs_activeTopics (cc_conversationState c5)) \<le> 5"
    using m4 i4 t4 by (simp_all add: c5_def updateEngagementLevel_fields)
  then show ?thesis unfolding r withinCaps_def by (simp add: refreshFocusState_fields)
qed

lemma reset_withinCaps: "withinCaps (reset now)"
  by (simp add: withinCaps_def reset_def)

lemma focusOnEntity_withinCaps: "withinCaps ctx \<Longrightarrow> withinCaps (focusOnEntity now e ctx)"
  by (simp add: withinCaps_def focusOnEntity_def Let_def refreshFocusState_fields)

lemma focusOnTopic_topics:
  "length (wcs_activeTopics (cc_conversationState (focusOnTopic now topic ctx)))
     \<le> Suc (length (wcs_activeTopics (cc_conversationState ctx)))"
  by (simp add: focusOnTopic_def refreshFocusState_fields)

section \<open>Accumulation of sequential patterns\<close>

subsection \<open>Frequency tables\<close>






lemma bump_positive: "\<forall>v \<in> snd ` set tbl. 0 < v \<Longrightarrow> \<forall>v \<in> snd ` set (bump tbl k). 0 < v"
proof -
  assume a: "\<forall>v \<in> snd ` set tbl. 0 < v"
  have "set (AList.update k v tbl) \<subseteq> insert (k, v) (set tbl)" for v
    by (induction tbl) auto
  then show ?thesis using a unfolding bump_def by (fastforce split: option.splits)
qed




lemma pairKeys_length2: "k \<in> set (pairKeys xs) \<Longrightarrow> length k = 2"
  by (induction xs rule: pairKeys.induct) auto





subsection \<open>One step of the sequential miner\<close>

text \<open>The record pushed for a new sequence, and the update of an existing record.\<close>

definition newSequential :: "int \<Rightarrow> IntentionType list \<Rightarrow> nat \<Rightarrow> InteractionPattern" where
  "newSequential now sequence count =
     \<lparr>ip_type = SEQUENTIAL,
      ip_description = ''User often follows '' @ formatIntention (intentionTypeValue (hd sequence))
         @ '' with '' @ formatIntention (intentionTypeValue (last sequence)),
      ip_confidence = confidenceFor count,
      ip_occurrences = count,
      ip_firstObservedAt = now,
      ip_lastObservedAt = now,
      ip_elements = PartElements (map intentionTypeValue sequence),
      ip_metadata = Some (SequenceMeta sequence)\<rparr>"

definition observedAgain :: "int \<Rightarrow> InteractionPattern \<Rightarrow> InteractionPattern" where
  "observedAgain now pattern =
     pattern\<lparr>ip_occurrences := ip_occurrences pattern + 1,
             ip_lastObservedAt := now,
             ip_confidence := confidenceFor (ip_occurrences pattern + 1)\<rparr>"


lemma hasSequenceKey_observedAgain [simp]:
  "hasSequenceKey k' (observedAgain now p) = hasSequenceKey k' p"
  by (simp add: hasSequenceKey_def observedAgain_def)

lemma hasSequenceKey_newSequential [simp]:
  "hasSequenceKey k' (newSequential now k c) = (k' = k)"
  by (auto simp: hasSequenceKey_def newSequential_def)







subsection \<open>Signatures stay distinct\<close>




lemma hasSequenceKey_in_keys:
  "p \<in> set ps \<Longrightarrow> hasSequenceKey k p \<Longrightarrow> Some k \<in> set (sequentialKeys ps)"
  by (force simp: sequentialKeys_def hasSequenceKey_def)





subsection \<open>The other miners leave the sequential patterns alone\<close>










lemma detectTemporalPatterns_history:
  "pt_interactionHistory (detectTemporalPatterns tz now st) = pt_interactionHistory st"
  by (simp add: detectTemporalPatterns_def Let_def)
















section \<open>Value applicability and conflict resolution\<close>










lemma resolveConflict_cases:
  "resolveConflict st A B ctx =
     (if getCustomPriorityInContext st (cv_id A) (cv_id B) ctx \<noteq> 0
      then (if getCustomPriorityInContext st (cv_id A) (cv_id B) ctx > 0 then A else B)
      else if \<bar>getValueApplicability A ctx - getValueApplicability B ctx\<bar> > 0.3
      then (if getValueApplicability A ctx - getValueApplicability B ctx > 0 then A else B)
      else if cv_importance A \<ge> cv_importance B then A else B)"
  by (simp add: resolveConflict_def Let_def)

section \<open>Entity recognition: termination, bounds and overlap resolution\<close>

subsection \<open>Expressions that cannot match the empty string\<close>

text \<open>A lower bound on the length of a match.\<close>

primrec minLen :: "regex \<Rightarrow> nat" where
  "minLen Eps = 0"
| "minLen (Cls items) = 1"
| "minLen Dot = 1"
| "minLen (Seq r1 r2) = minLen r1 + minLen r2"
| "minLen (Alt r1 r2) = min (minLen r1) (minLen r2)"
| "minLen (Star r) = 0"
| "minLen (Grp n r) = minLen r"
| "minLen WordB = 0"
| "minLen Bol = 0"
| "minLen Eol = 0"

lemma advances_le: "advances st st' \<Longrightarrow> fst st \<le> fst st'"
  unfolding advances_def by (elim exE conjE) simp

lemma advances_total:
  "advances st st' \<Longrightarrow> fst st' + length (fst (snd (snd st'))) = fst st + length (fst (snd (snd st)))"
  unfolding advances_def by (elim exE conjE) simp

lemma rmatch_minLen: "st' \<in> set (rmatch r ic st) \<Longrightarrow> fst st + minLen r \<le> fst st'"
proof (induction r arbitrary: st st')
  case (Cls items)
  obtain pos prev rest caps where st: "st = (pos, prev, rest, caps)" by (cases st)
  from Cls.prems obtain c cs where "rest = c # cs" "st' = (Suc pos, Some c, cs, caps)"
    unfolding st by (simp split: list.splits if_splits) blast
  then show ?case unfolding st by simp
next
  case Dot
  obtain pos prev rest caps where st: "st = (pos, prev, rest, caps)" by (cases st)
  from Dot.prems obtain c cs where "rest = c # cs" "st' = (Suc pos, Some c, cs, caps)"
    unfolding st by (simp split: list.splits if_splits) blast
  then show ?case unfolding st by simp
next
  case (Seq r1 r2)
  from Seq.prems obtain s where s: "s \<in> set (rmatch r1 ic st)" and s': "st' \<in> set (rmatch r2 ic s)"
    by auto
  from Seq.IH(1)[OF s] Seq.IH(2)[OF s'] show ?case by simp
next
  case (Alt r1 r2)
  from Alt.prems have "st' \<in> set (rmatch r1 ic st) \<or> st' \<in> set (rmatch r2 ic st)" by simp
  then show ?case
  proof
    assume "st' \<in> set (rmatch r1 ic st)"
    from Alt.IH(1)[OF this] show ?thesis by simp
  next
    assume "st' \<in> set (rmatch r2 ic st)"
    from Alt.IH(2)[OF this] show ?thesis by simp
  qed
next
  case (Grp n r)
  from Grp.prems obtain s where s: "s \<in> set (rmatch r ic st)"
    and "st' = (case s of (pos', prev', rest', caps') \<Rightarrow> (pos', prev', rest', AList.update n (fst st, pos') caps'))"
    by auto
  then have "fst st' = fst s" by (simp split: prod.splits)
  with Grp.IH[OF s] show ?case by simp
next
  case (Star r)
  from advances_le[OF rmatch_advances[OF Star.prems]] show ?case by simp
next
  case Eps
  from advances_le[OF rmatch_advances[OF Eps.prems]] show ?case by simp
next
  case WordB
  from advances_le[OF rmatch_advances[OF WordB.prems]] show ?case by simp
next
  case Bol
  from advances_le[OF rmatch_advances[OF Bol.prems]] show ?case by simp
next
  case Eol
  from advances_le[OF rmatch_advances[OF Eol.prems]] show ?case by simp
qed

lemma searchFrom_span:
  assumes "searchFrom r ic pos prev rest = Some (idx, m)"
  shows "pos \<le> idx \<and> idx + minLen r \<le> fst m
         \<and> fst m + length (fst (snd (snd m))) = pos + length rest"
  using assms
proof (induction rest arbitrary: pos prev)
  case Nil
  then have mem: "m \<in> set (rmatch r ic (pos, prev, [], []))" and idx: "idx = pos"
    by (auto split: list.splits)
  from rmatch_minLen[OF mem] advances_total[OF rmatch_advances[OF mem]] idx show ?case by simp
next
  case (Cons c cs)
  show ?case
  proof (cases "rmatch r ic (pos, prev, c # cs, [])")
    case Nil
    with Cons.prems have "searchFrom r ic (Suc pos) (Some c) cs = Some (idx, m)" by simp
    from Cons.IH[OF this] show ?thesis by simp
  next
    case (Cons m' ms)
    with Cons.prems have mm: "m = m'" and idx: "idx = pos" by simp_all
    from mm Cons have mem: "m \<in> set (rmatch r ic (pos, prev, c # cs, []))" by simp
    from rmatch_minLen[OF mem] advances_total[OF rmatch_advances[OF mem]] idx show ?thesis by simp
  qed
qed

declare execAll.simps [simp del]

lemma execAll_total:
  assumes "1 \<le> minLen r"
  shows "\<exists>ms. execAll r ic pos prev rest = Some ms"
  using assms
proof (induction r ic pos prev rest rule: execAll.induct)
  case (1 r ic pos prev rest)
  note pos = \<open>1 \<le> minLen r\<close>
  show ?case
  proof (cases "searchFrom r ic pos prev rest")
    case None
    then show ?thesis by (subst execAll.simps) simp
  next
    case (Some a)
    obtain idx m where a: "a = (idx, m)" by (cases a)
    from searchFrom_span[OF Some[unfolded a]] pos have lt: "idx < fst m" by linarith
    from "1.IH"[OF Some a[symmetric] lt pos] obtain ms where
      "execAll r ic (fst m) (fst (snd m)) (fst (snd (snd m))) = Some ms" by blast
    with Some a lt show ?thesis by (subst execAll.simps) simp
  qed
qed

lemma execAll_spans:
  "execAll r ic pos prev rest = Some ms \<Longrightarrow> match \<in> set ms \<Longrightarrow>
   pos \<le> fst match \<and> fst match < fst (snd match) \<and> fst (snd match) \<le> pos + length rest"
proof (induction r ic pos prev rest arbitrary: ms rule: execAll.induct)
  case (1 r ic pos prev rest)
  show ?case
  proof (cases "searchFrom r ic pos prev rest")
    case None
    with "1.prems" show ?thesis by (subst (asm) execAll.simps) simp
  next
    case (Some a)
    obtain idx m where a: "a = (idx, m)" by (cases a)
    from "1.prems"(1) Some a have lt: "idx < fst m"
      by (subst (asm) execAll.simps) (simp split: if_splits)
    from "1.prems"(1) Some a lt obtain ms' where
      ms': "execAll r ic (fst m) (fst (snd m)) (fst (snd (snd m))) = Some ms'"
      and ms: "ms = (idx, m) # ms'"
      by (subst (asm) execAll.simps) auto
    note sp = searchFrom_span[OF Some[unfolded a]]
    from "1.prems"(2) ms have "match = (idx, m) \<or> match \<in> set ms'" by auto
    then show ?thesis
    proof
      assume "match = (idx, m)"
      with sp lt show ?thesis by simp
    next
      assume "match \<in> set ms'"
      from "1.IH"[OF Some a[symmetric] lt ms' this] sp show ?thesis by simp
    qed
  qed
qed

subsection \<open>The three passes end, and their candidates lie inside the text\<close>

lemma those_Some: "those xs = Some ys \<Longrightarrow> xs = map Some ys"
proof (induction xs arbitrary: ys)
  case Nil
  then show ?case by simp
next
  case (Cons x xs)
  then show ?case by (cases x; cases "those xs") auto
qed

lemma those_total: "(\<And>x. x \<in> set xs \<Longrightarrow> x \<noteq> None) \<Longrightarrow> \<exists>ys. those xs = Some ys"
proof (induction xs)
  case Nil
  then show ?case by simp
next
  case (Cons x xs)
  then obtain y ys where "x = Some y" "those xs = Some ys" by fastforce
  then show ?case by simp
qed

lemma spanWithin_candidate:
  "spanWithin n (candidate entityType v confidence match)
     = (fst match < fst (snd match) \<and> fst (snd match) \<le> n)"
  by (simp add: spanWithin_def candidate_def)

lemma patternMatches_total:
  "1 \<le> minLen pattern \<Longrightarrow> patternMatches text entityType pattern \<noteq> None"
  using execAll_total[of pattern False 0 None "text"] by (auto simp: patternMatches_def)

lemma patternMatches_spans:
  assumes "patternMatches text entityType pattern = Some es" "e \<in> set es"
  shows "spanWithin (length text) e"
proof -
  from assms obtain ms match where ms: "execAll pattern False 0 None text = Some ms"
    and m: "match \<in> set ms"
    and e: "e = candidate entityType (matchValue entityType text match) 0.8 match"
    by (auto simp: patternMatches_def)
  from execAll_spans[OF ms m] show ?thesis unfolding e by (simp add: spanWithin_candidate)
qed

lemma entityPatterns_minLen:
  "list_all (\<lambda>entry. list_all (\<lambda>pattern. 1 \<le> minLen pattern) (snd entry)) entityPatterns"
  by code_simp

lemma entityLists_minLen:
  "list_all (\<lambda>entry. 1 \<le> minLen (itemRegex (snd entry)))
     (concat (map (\<lambda>entry. map (\<lambda>item. (fst entry, item)) (snd entry)) entityLists))"
  by code_simp

lemma conceptRegex_minLen: "1 \<le> minLen conceptRegex"
  by code_simp

lemma patternEntities_spans:
  "\<exists>es. patternEntities text = Some es \<and> (\<forall>e \<in> set es. spanWithin (length text) e)"
proof -
  let ?xs = "concat (map (\<lambda>entry. map (patternMatches text (fst entry)) (snd entry)) entityPatterns)"
  have "\<And>x. x \<in> set ?xs \<Longrightarrow> x \<noteq> None"
  proof -
    fix x assume "x \<in> set ?xs"
    then obtain entry pattern where "entry \<in> set entityPatterns" "pattern \<in> set (snd entry)"
      and x: "x = patternMatches text (fst entry) pattern" by auto
    with entityPatterns_minLen have "1 \<le> minLen pattern" by (auto simp: list_all_iff)
    then show "x \<noteq> None" unfolding x by (rule patternMatches_total)
  qed
  from those_total[OF this] obtain ys where ys: "those ?xs = Some ys" by blast
  have "\<forall>e \<in> set (concat ys). spanWithin (length text) e"
  proof
    fix e assume "e \<in> set (concat ys)"
    then obtain l where l: "l \<in> set ys" and e: "e \<in> set l" by auto
    from those_Some[OF ys] l have "Some l \<in> set ?xs" by simp
    then obtain entry pattern where "Some l = patternMatches text (fst entry) pattern" by auto
    from patternMatches_spans[OF this[symmetric] e] show "spanWithin (length text) e" .
  qed
  with ys show ?thesis by (simp add: patternEntities_def)
qed

lemma foldl_push_spans:
  assumes step: "\<And>es m. \<forall>e \<in> set es. spanWithin n e \<Longrightarrow> m \<in> set ms
                   \<Longrightarrow> \<forall>e \<in> set (f es m). spanWithin n e"
    and "\<forall>e \<in> set es. spanWithin n e"
  shows "\<forall>e \<in> set (foldl f es ms). spanWithin n e"
  using assms
proof (induction ms arbitrary: es)
  case Nil
  then show ?case by simp
next
  case (Cons m ms)
  have "\<forall>e \<in> set (f es m). spanWithin n e" using Cons.prems(1)[OF Cons.prems(2), of m] by simp
  moreover have "\<And>es m. \<forall>e \<in> set es. spanWithin n e \<Longrightarrow> m \<in> set ms
                   \<Longrightarrow> \<forall>e \<in> set (f es m). spanWithin n e"
  proof -
    fix es' m' assume "\<forall>e \<in> set es'. spanWithin n e" "m' \<in> set ms"
    then show "\<forall>e \<in> set (f es' m'). spanWithin n e" using Cons.prems(1)[of es' m'] by simp
  qed
  ultimately show ?case using Cons.IH[of "f es m"] by simp
qed

lemma pushUnlessOverlap_step:
  assumes "\<forall>e \<in> set es. spanWithin n e" "fst m < fst (snd m) \<and> fst (snd m) \<le> n"
  shows "\<forall>e \<in> set (pushUnlessOverlap entityType text confidence es m). spanWithin n e"
  using assms by (simp add: pushUnlessOverlap_def spanWithin_candidate)

lemma pushConcept_step:
  assumes "\<forall>e \<in> set es. spanWithin n e" "fst m < fst (snd m) \<and> fst (snd m) \<le> n"
  shows "\<forall>e \<in> set (pushConcept text es m). spanWithin n e"
  using assms by (simp add: pushConcept_def spanWithin_candidate)

lemma pushMatches_spans:
  assumes safe: "1 \<le> minLen r" and es: "\<forall>e \<in> set es. spanWithin (length text) e"
    and step: "\<And>es m. \<forall>e \<in> set es. spanWithin (length text) e
                 \<Longrightarrow> fst m < fst (snd m) \<and> fst (snd m) \<le> length text
                 \<Longrightarrow> \<forall>e \<in> set (f es m). spanWithin (length text) e"
  shows "\<exists>es'. map_option (foldl f es) (execAll r ic 0 None text) = Some es'
               \<and> (\<forall>e \<in> set es'. spanWithin (length text) e)"
proof -
  from execAll_total[OF safe] obtain ms where ms: "execAll r ic 0 None text = Some ms" by blast
  have "\<And>es m. \<forall>e \<in> set es. spanWithin (length text) e \<Longrightarrow> m \<in> set ms
                   \<Longrightarrow> \<forall>e \<in> set (f es m). spanWithin (length text) e"
  proof -
    fix es m assume a: "\<forall>e \<in> set es. spanWithin (length text) e" and "m \<in> set ms"
    from execAll_spans[OF ms this(2)] have "fst m < fst (snd m) \<and> fst (snd m) \<le> length text"
      by simp
    from step[OF a this] show "\<forall>e \<in> set (f es m). spanWithin (length text) e" .
  qed
  from foldl_push_spans[of "length text" ms f, OF this es] ms show ?thesis by simp
qed

lemma itemSteps_spans:
  assumes "\<forall>entry \<in> set items. 1 \<le> minLen (itemRegex (snd entry))"
    and "\<forall>e \<in> set es. spanWithin (length text) e"
  shows "\<exists>es'. foldl (itemStep text) (Some es) items = Some es'
               \<and> (\<forall>e \<in> set es'. spanWithin (length text) e)"
  using assms
proof (induction items arbitrary: es)
  case Nil
  then show ?case by simp
next
  case (Cons entry items)
  from Cons.prems(1) have safe: "1 \<le> minLen (itemRegex (snd entry))" by simp
  from pushMatches_spans[OF safe Cons.prems(2), of "pushUnlessOverlap (fst entry) text 0.9" True,
         OF pushUnlessOverlap_step]
  obtain es1 where
    step: "itemStep text (Some es) entry = Some es1"
    and es1: "\<forall>e \<in> set es1. spanWithin (length text) e"
    by (auto simp: itemStep_def)
  from Cons.prems(1) have "\<forall>entry \<in> set items. 1 \<le> minLen (itemRegex (snd entry))" by simp
  from Cons.IH[OF this es1] step show ?case by simp
qed

lemma candidateEntities_spans:
  "\<exists>es. candidateEntities text = Some es \<and> (\<forall>e \<in> set es. spanWithin (length text) e)"
proof -
  from patternEntities_spans obtain e1 where
    p1: "patternEntities text = Some e1" and s1: "\<forall>e \<in> set e1. spanWithin (length text) e"
    by blast
  have "\<forall>entry \<in> set (concat (map (\<lambda>entry. map (\<lambda>item. (fst entry, item)) (snd entry)) entityLists)).
          1 \<le> minLen (itemRegex (snd entry))"
    using entityLists_minLen unfolding list_all_iff .
  from itemSteps_spans[OF this s1] obtain e2 where
    p2: "listEntities text e1 = Some e2" and s2: "\<forall>e \<in> set e2. spanWithin (length text) e"
    unfolding listEntities_def by blast
  from pushMatches_spans[OF conceptRegex_minLen s2, of "pushConcept text" False,
         OF pushConcept_step]
  obtain e3 where
    p3: "extractConcepts text e2 = Some e3" and s3: "\<forall>e \<in> set e3. spanWithin (length text) e"
    unfolding extractConcepts_def by blast
  from p1 p2 p3 s3 show ?thesis by (simp add: candidateEntities_def)
qed

subsection \<open>The resolution of overlaps\<close>

lemma spanWithin_bounds:
  "spanWithin n e \<Longrightarrow> startOr0 e < endOr0 e \<and> endOr0 e \<le> n"
  by (simp add: spanWithin_def startOr0_def endOr0_def split: option.splits)

lemma resolveLoop_subset: "set (resolveLoop cur rest) \<subseteq> set (cur # rest)"
proof (induction rest arbitrary: cur)
  case Nil
  then show ?case by simp
next
  case (Cons nxt rest)
  have a: "set (resolveLoop nxt rest) \<subseteq> set (cur # nxt # rest)" using Cons.IH[of nxt] by auto
  have b: "set (resolveLoop cur rest) \<subseteq> set (cur # nxt # rest)" using Cons.IH[of cur] by auto
  from a b show ?case by simp
qed

lemma resolveLoop_disjoint:
  assumes "sorted (map startOr0 (cur # rest))"
  shows "sorted_wrt (\<lambda>a b. endOr0 a \<le> startOr0 b) (resolveLoop cur rest)"
  using assms
proof (induction rest arbitrary: cur)
  case Nil
  then show ?case by simp
next
  case (Cons nxt rest)
  from Cons.prems have le: "startOr0 cur \<le> startOr0 nxt"
    and sn: "sorted (map startOr0 (nxt # rest))"
    and sc: "sorted (map startOr0 (cur # rest))" by auto
  show ?case
  proof (cases "startOr0 cur \<le> startOr0 nxt \<and> endOr0 cur > startOr0 nxt")
    case True
    then show ?thesis using Cons.IH[OF sn] Cons.IH[OF sc] by simp
  next
    case False
    with le have e: "endOr0 cur \<le> startOr0 nxt" by simp
    have "\<forall>x \<in> set (resolveLoop nxt rest). endOr0 cur \<le> startOr0 x"
    proof
      fix x assume "x \<in> set (resolveLoop nxt rest)"
      with resolveLoop_subset have "x \<in> set (nxt # rest)" by blast
      with sn have "startOr0 nxt \<le> startOr0 x" by auto
      with e show "endOr0 cur \<le> startOr0 x" by simp
    qed
    with False Cons.IH[OF sn] show ?thesis by auto
  qed
qed

lemma not_better_preferred:
  assumes "\<not> en_confidence nxt > en_confidence cur"
    and "\<not> (en_confidence nxt = en_confidence cur \<and> spanLength nxt > spanLength cur)"
  shows "preferredTo cur nxt"
  using assms unfolding preferredTo_def by auto

lemma resolveLoop_fate:
  assumes "\<forall>e \<in> set (cur # rest). startOr0 e < endOr0 e"
    and "x \<in> set (cur # rest)"
  shows "x \<in> set (resolveLoop cur rest)
         \<or> (\<exists>d \<in> set (cur # rest). d \<noteq> x \<and> spansOverlap d x \<and> preferredTo d x)"
  using assms
proof (induction rest arbitrary: cur x)
  case Nil
  then show ?case by simp
next
  case (Cons nxt rest)
  from Cons.prems(1) have nn: "\<forall>e \<in> set (nxt # rest). startOr0 e < endOr0 e"
    and nc: "\<forall>e \<in> set (cur # rest). startOr0 e < endOr0 e"
    and en: "startOr0 nxt < endOr0 nxt" by auto
  let ?all = "cur # nxt # rest"
  show ?case
  proof (cases "startOr0 cur \<le> startOr0 nxt \<and> endOr0 cur > startOr0 nxt")
    case False
    then have r: "resolveLoop cur (nxt # rest) = cur # resolveLoop nxt rest" by auto
    show ?thesis
    proof (cases "x = cur")
      case True
      then show ?thesis unfolding r by simp
    next
      case False
      with Cons.prems(2) have "x \<in> set (nxt # rest)" by auto
      from Cons.IH[OF nn this] show ?thesis unfolding r by auto
    qed
  next
    case True
    with en have ov: "spansOverlap nxt cur" "spansOverlap cur nxt"
      by (simp_all add: spansOverlap_def)
    show ?thesis
    proof (cases "en_confidence nxt > en_confidence cur
                  \<or> (en_confidence nxt = en_confidence cur \<and> spanLength nxt > spanLength cur)")
      case wins: True
      with True have r: "resolveLoop cur (nxt # rest) = resolveLoop nxt rest" by auto
      from wins have p: "preferredTo nxt cur" and ne: "nxt \<noteq> cur"
        by (auto simp: preferredTo_def)
      show ?thesis
      proof (cases "x \<in> set (nxt # rest)")
        case True
        from Cons.IH[OF nn this] show ?thesis unfolding r by auto
      next
        case False
        with Cons.prems(2) have "x = cur" by auto
        with p ne ov show ?thesis by auto
      qed
    next
      case stays: False
      with True have r: "resolveLoop cur (nxt # rest) = resolveLoop cur rest" by auto
      from stays have p: "preferredTo cur nxt" by (auto simp: preferredTo_def)
      show ?thesis
      proof (cases "x \<in> set (cur # rest)")
        case True
        from Cons.IH[OF nc this] show ?thesis unfolding r by auto
      next
        case False
        with Cons.prems(2) have x: "x = nxt" and "cur \<noteq> x" by auto
        with p ov show ?thesis by auto
      qed
    qed
  qed
qed

lemma resolveOverlappingEntities_cases:
  "resolveOverlappingEntities now entities =
     (if length entities \<le> 1 then entities
      else map (\<lambda>entity. entity\<lparr>en_firstMentionedAt := Some now,
                                 en_lastMentionedAt := Some now,
                                 en_mentionCount := Some 1\<rparr>)
               (resolveLoop (hd (sortByStart entities)) (tl (sortByStart entities))))"
  by (simp add: resolveOverlappingEntities_def Let_def)

lemma sortByStart_Cons:
  assumes "entities \<noteq> []"
  shows "hd (sortByStart entities) # tl (sortByStart entities) = sortByStart entities"
proof -
  have "length (sortByStart entities) = length entities" by (simp add: sortByStart_def)
  with assms have "sortByStart entities \<noteq> []" by auto
  then show ?thesis by simp
qed

lemma mention_startOr0:
  "startOr0 (e\<lparr>en_firstMentionedAt := a, en_lastMentionedAt := b, en_mentionCount := c\<rparr>) = startOr0 e"
  by (simp add: startOr0_def)

lemma mention_endOr0:
  "endOr0 (e\<lparr>en_firstMentionedAt := a, en_lastMentionedAt := b, en_mentionCount := c\<rparr>) = endOr0 e"
  by (simp add: endOr0_def)

lemma mention_spanWithin:
  "spanWithin n (e\<lparr>en_firstMentionedAt := a, en_lastMentionedAt := b, en_mentionCount := c\<rparr>)
     = spanWithin n e"
  by (simp add: spanWithin_def)

lemma mention_sameCandidate:
  "sameCandidate (e\<lparr>en_firstMentionedAt := a, en_lastMentionedAt := b, en_mentionCount := c\<rparr>) e"
  by (simp add: sameCandidate_def)

lemma sameCandidate_refl: "sameCandidate e e"
  by (simp add: sameCandidate_def)

lemma disjoint_not_overlap: "endOr0 a \<le> startOr0 b \<Longrightarrow> \<not> spansOverlap a b"
  by (simp add: spansOverlap_def)


text \<open>
  Two candidates are linked when a chain of candidates leads from one to the other, each
  overlapping the next.
\<close>

definition overlapChain :: "Entity list \<Rightarrow> Entity \<Rightarrow> Entity \<Rightarrow> bool" where
  "overlapChain cands = (\<lambda>a b. a \<in> set cands \<and> b \<in> set cands \<and> spansOverlap a b)\<^sup>*\<^sup>*"

lemma overlapChain_refl: "overlapChain cands a a"
  by (simp add: overlapChain_def)

lemma overlapChain_step:
  assumes "a \<in> set cands" "b \<in> set cands" "spansOverlap a b" "overlapChain cands b c"
  shows "overlapChain cands a c"
proof -
  from assms(1-3) have "(\<lambda>a b. a \<in> set cands \<and> b \<in> set cands \<and> spansOverlap a b) a b" by simp
  from this assms(4) show ?thesis unfolding overlapChain_def by (rule converse_rtranclp_into_rtranclp)
qed

lemma preferredTo_refl: "preferredTo a a"
  by (simp add: preferredTo_def)

lemma preferredTo_trans: "preferredTo a b \<Longrightarrow> preferredTo b c \<Longrightarrow> preferredTo a c"
  by (auto simp: preferredTo_def)

lemma resolveLoop_winner:
  assumes "\<forall>e \<in> set (cur # rest). startOr0 e < endOr0 e"
    and "set (cur # rest) \<subseteq> set cands"
    and "x \<in> set (cur # rest)"
  shows "\<exists>e \<in> set (resolveLoop cur rest). preferredTo e x \<and> overlapChain cands x e"
  using assms
proof (induction rest arbitrary: cur x)
  case Nil
  then show ?case by (simp add: preferredTo_refl overlapChain_refl)
next
  case (Cons nxt rest)
  from Cons.prems(1) have nn: "\<forall>e \<in> set (nxt # rest). startOr0 e < endOr0 e"
    and nc: "\<forall>e \<in> set (cur # rest). startOr0 e < endOr0 e"
    and en: "startOr0 nxt < endOr0 nxt" by auto
  from Cons.prems(2) have sn: "set (nxt # rest) \<subseteq> set cands"
    and sc: "set (cur # rest) \<subseteq> set cands"
    and cin: "cur \<in> set cands" and nin: "nxt \<in> set cands" by auto
  show ?case
  proof (cases "startOr0 cur \<le> startOr0 nxt \<and> endOr0 cur > startOr0 nxt")
    case False
    then have r: "resolveLoop cur (nxt # rest) = cur # resolveLoop nxt rest" by auto
    show ?thesis
    proof (cases "x = cur")
      case True
      then show ?thesis unfolding r by (simp add: preferredTo_refl overlapChain_refl)
    next
      case False
      with Cons.prems(3) have "x \<in> set (nxt # rest)" by auto
      from Cons.IH[OF nn sn this] show ?thesis unfolding r by auto
    qed
  next
    case True
    with en have ov: "spansOverlap nxt cur" "spansOverlap cur nxt"
      by (simp_all add: spansOverlap_def)
    show ?thesis
    proof (cases "en_confidence nxt > en_confidence cur
                  \<or> (en_confidence nxt = en_confidence cur \<and> spanLength nxt > spanLength cur)")
      case wins: True
      with True have r: "resolveLoop cur (nxt # rest) = resolveLoop nxt rest" by auto
      from wins have p: "preferredTo nxt cur" by (auto simp: preferredTo_def)
      show ?thesis
      proof (cases "x \<in> set (nxt # rest)")
        case True
        from Cons.IH[OF nn sn this] show ?thesis unfolding r .
      next
        case False
        with Cons.prems(3) have x: "x = cur" by auto
        have "nxt \<in> set (nxt # rest)" by simp
        from Cons.IH[OF nn sn this] obtain e where e: "e \<in> set (resolveLoop nxt rest)"
          and pe: "preferredTo e nxt" and ch: "overlapChain cands nxt e" by blast
        from preferredTo_trans[OF pe p] overlapChain_step[OF cin nin ov(2) ch] e
        show ?thesis unfolding r x by blast
      qed
    next
      case stays: False
      with True have r: "resolveLoop cur (nxt # rest) = resolveLoop cur rest" by auto
      from stays have p: "preferredTo cur nxt" by (auto simp: preferredTo_def)
      show ?thesis
      proof (cases "x \<in> set (cur # rest)")
        case True
        from Cons.IH[OF nc sc this] show ?thesis unfolding r .
      next
        case False
        with Cons.prems(3) have x: "x = nxt" by auto
        have "cur \<in> set (cur # rest)" by simp
        from Cons.IH[OF nc sc this] obtain e where e: "e \<in> set (resolveLoop cur rest)"
          and pe: "preferredTo e cur" and ch: "overlapChain cands cur e" by blast
        from preferredTo_trans[OF pe p] overlapChain_step[OF nin cin ov(1) ch] e
        show ?thesis unfolding r x by blast
      qed
    qed
  qed
qed

lemma resolveOverlappingEntities_spec:
  assumes spans: "\<forall>e \<in> set cands. spanWithin n e"
  shows "(\<forall>e \<in> set (resolveOverlappingEntities now cands). spanWithin n e)
       \<and> sorted_wrt (\<lambda>a b. endOr0 a \<le> startOr0 b \<and> \<not> spansOverlap a b)
            (resolveOverlappingEntities now cands)
       \<and> (\<forall>e \<in> set (resolveOverlappingEntities now cands). \<exists>c \<in> set cands. sameCandidate e c)
       \<and> (\<forall>c \<in> set cands.
             (\<exists>e \<in> set (resolveOverlappingEntities now cands). sameCandidate e c)
             \<or> (\<exists>d \<in> set cands. d \<noteq> c \<and> spansOverlap d c \<and> preferredTo d c))
       \<and> (\<forall>c \<in> set cands. \<exists>k \<in> set cands.
             overlapChain cands c k \<and> preferredTo k c
             \<and> (\<exists>e \<in> set (resolveOverlappingEntities now cands). sameCandidate e k))"
proof (cases "length cands \<le> 1")
  case True
  then have r: "resolveOverlappingEntities now cands = cands"
    by (simp add: resolveOverlappingEntities_cases)
  from True have "cands = [] \<or> (\<exists>c. cands = [c])"
    by (cases cands) (auto simp: length_Suc_conv)
  then have "sorted_wrt (\<lambda>a b. endOr0 a \<le> startOr0 b \<and> \<not> spansOverlap a b) cands" by auto
  moreover have "\<forall>c \<in> set cands. \<exists>k \<in> set cands.
             overlapChain cands c k \<and> preferredTo k c \<and> (\<exists>e \<in> set cands. sameCandidate e k)"
    using overlapChain_refl preferredTo_refl sameCandidate_refl by blast
  ultimately show ?thesis using spans sameCandidate_refl unfolding r by blast
next
  case False
  then have ne: "cands \<noteq> []" by auto
  let ?cur = "hd (sortByStart cands)"
  let ?rest = "tl (sortByStart cands)"
  let ?res = "resolveLoop ?cur ?rest"
  let ?meta = "\<lambda>entity. entity\<lparr>en_firstMentionedAt := Some now,
                                 en_lastMentionedAt := Some now,
                                 en_mentionCount := Some 1\<rparr>"
  from False have r: "resolveOverlappingEntities now cands = map ?meta ?res"
    by (simp add: resolveOverlappingEntities_cases)
  note c = sortByStart_Cons[OF ne]
  have set_sorted: "set (?cur # ?rest) = set cands" unfolding c by (simp add: sortByStart_def)
  have sorted: "sorted (map startOr0 (?cur # ?rest))" unfolding c by (simp add: sortByStart_def)
  have sub: "set ?res \<subseteq> set cands" using resolveLoop_subset[of ?cur ?rest] set_sorted by simp
  have nonempty: "\<forall>e \<in> set (?cur # ?rest). startOr0 e < endOr0 e"
    unfolding set_sorted using spans spanWithin_bounds by blast
  have 1: "\<forall>e \<in> set (map ?meta ?res). spanWithin n e"
    using sub spans by (auto simp: mention_spanWithin)
  have "sorted_wrt (\<lambda>a b. endOr0 a \<le> startOr0 b) ?res" using resolveLoop_disjoint[OF sorted] .
  then have "sorted_wrt (\<lambda>a b. endOr0 a \<le> startOr0 b \<and> \<not> spansOverlap a b) ?res"
    by (rule sorted_wrt_mono_rel[rotated]) (simp add: disjoint_not_overlap)
  then have 2: "sorted_wrt (\<lambda>a b. endOr0 a \<le> startOr0 b \<and> \<not> spansOverlap a b) (map ?meta ?res)"
    by (simp add: sorted_wrt_map mention_startOr0 mention_endOr0 spansOverlap_def)
  have 3: "\<forall>e \<in> set (map ?meta ?res). \<exists>c \<in> set cands. sameCandidate e c"
    using sub mention_sameCandidate by fastforce
  have 4: "\<forall>c \<in> set cands.
             (\<exists>e \<in> set (map ?meta ?res). sameCandidate e c)
             \<or> (\<exists>d \<in> set cands. d \<noteq> c \<and> spansOverlap d c \<and> preferredTo d c)"
  proof
    fix x assume "x \<in> set cands"
    then have "x \<in> set (?cur # ?rest)" unfolding set_sorted .
    from resolveLoop_fate[OF nonempty this]
    have "x \<in> set ?res \<or> (\<exists>d \<in> set cands. d \<noteq> x \<and> spansOverlap d x \<and> preferredTo d x)"
      unfolding set_sorted .
    then show "(\<exists>e \<in> set (map ?meta ?res). sameCandidate e x)
             \<or> (\<exists>d \<in> set cands. d \<noteq> x \<and> spansOverlap d x \<and> preferredTo d x)"
    proof
      assume "x \<in> set ?res"
      then have "?meta x \<in> set (map ?meta ?res)" by simp
      with mention_sameCandidate show ?thesis by blast
    qed blast
  qed
  have 5: "\<forall>c \<in> set cands. \<exists>k \<in> set cands.
             overlapChain cands c k \<and> preferredTo k c
             \<and> (\<exists>e \<in> set (map ?meta ?res). sameCandidate e k)"
  proof
    fix x assume "x \<in> set cands"
    then have x: "x \<in> set (?cur # ?rest)" unfolding set_sorted .
    have "set (?cur # ?rest) \<subseteq> set cands" unfolding set_sorted by simp
    from resolveLoop_winner[OF nonempty this x] obtain k where k: "k \<in> set ?res"
      and pk: "preferredTo k x" and ch: "overlapChain cands x k" by blast
    from k have "?meta k \<in> set (map ?meta ?res)" by simp
    with mention_sameCandidate have "\<exists>e \<in> set (map ?meta ?res). sameCandidate e k" by blast
    with k sub pk ch
    show "\<exists>k \<in> set cands. overlapChain cands x k \<and> preferredTo k x
             \<and> (\<exists>e \<in> set (map ?meta ?res). sameCandidate e k)" by blast
  qed
  from 1 2 3 4 5 show ?thesis unfolding r by blast
qed

text \<open>
  Claim C10.  A cleanup pass of the entity tracker sets the salience of every entity it keeps
  to \<open>max 0.1 (salience * 0.95)\<close>, and an aging pass of the intention recognizer sets the
  confidence of every intention idle for more than five and at most ten minutes to
  \<open>max 0.1 (confidence * 0.8)\<close>; both decayed values are at least \<open>0.1\<close>.
\<close>

theorem decay_never_below_floor:
  "(60000 \<le> now - et_lastCleanupTimestamp st \<longrightarrow>
      distinct (map fst (et_entityLifespan st)) \<longrightarrow>
      map_of (et_entityLifespan st) k = Some l \<longrightarrow>
      map_of (et_entities st) k = Some e \<longrightarrow>
      0 < l - real_of_int (now - te_lastMentioned e) / 600000 \<longrightarrow>
        map_of (et_entities (cleanupStaleEntities now st)) k
          = Some (e\<lparr>te_salience := max 0.1 (te_salience e * 0.95)\<rparr>)
        \<and> 0.1 \<le> max 0.1 (te_salience e * 0.95))
   \<and> (distinct (map fst act) \<longrightarrow> map_of act k' = Some i \<longrightarrow>
      300000 < now' - ui_lastDetected i \<longrightarrow> now' - ui_lastDetected i \<le> 600000 \<longrightarrow>
        map_of (updateIntentionLifespans now' act) k'
          = Some (i\<lparr>ui_confidence := max 0.1 (ui_confidence i * 0.8)\<rparr>)
        \<and> 0.1 \<le> max 0.1 (ui_confidence i * 0.8))"
proof (intro conjI impI)
  assume "60000 \<le> now - et_lastCleanupTimestamp st"
    and d: "distinct (map fst (et_entityLifespan st))"
    and l: "map_of (et_entityLifespan st) k = Some l"
    and e: "map_of (et_entities st) k = Some e"
    and pos: "0 < l - real_of_int (now - te_lastMentioned e) / 600000"
  then have run: "cleanupStaleEntities now st
      = cleanupLoop now (et_entityLifespan st) (st\<lparr>et_lastCleanupTimestamp := now\<rparr>)"
    by (simp add: cleanupStaleEntities_def)
  have e': "map_of (et_entities (st\<lparr>et_lastCleanupTimestamp := now\<rparr>)) k = Some e"
    using e by simp
  show "map_of (et_entities (cleanupStaleEntities now st)) k
          = Some (e\<lparr>te_salience := max 0.1 (te_salience e * 0.95)\<rparr>)"
    unfolding run using cleanupLoop_self[OF d l e', of now] pos by simp
next
  show "0.1 \<le> max 0.1 (te_salience e * 0.95)" by simp
next
  assume "distinct (map fst act)" "map_of act k' = Some i"
    "300000 < now' - ui_lastDetected i" "now' - ui_lastDetected i \<le> 600000"
  then show "map_of (updateIntentionLifespans now' act) k'
          = Some (i\<lparr>ui_confidence := max 0.1 (ui_confidence i * 0.8)\<rparr>)"
    using lifespans_lookup[of act k' i now'] by simp
next
  show "0.1 \<le> max 0.1 (ui_confidence i * 0.8)" by simp
qed

theorem decay_never_below_floor_witness:
  "map_of (et_entities (cleanupStaleEntities 120000
      \<lparr>et_entities = [(''e1'', \<lparr>te_id = ''e1'', te_name = ''paris'', te_type = ''city'',
           te_firstMentioned = 0, te_lastMentioned = 0, te_attributes = [], te_salience = 0.1\<rparr>)],
       et_entityLifespan = [(''e1'', 1)], et_lastCleanupTimestamp = 0\<rparr>)) ''e1''
    = Some \<lparr>te_id = ''e1'', te_name = ''paris'', te_type = ''city'',
           te_firstMentioned = 0, te_lastMentioned = 0, te_attributes = [], te_salience = 0.1\<rparr>
   \<and> map_of (updateIntentionLifespans 400000
        [(''i1'', \<lparr>ui_id = ''i1'', ui_type = ''small_talk'', ui_firstDetected = 0,
           ui_lastDetected = 0, ui_confidence = 0.1, ui_status = ''active'',
           ui_relatedEntities = None\<rparr>)]) ''i1''
    = Some \<lparr>ui_id = ''i1'', ui_type = ''small_talk'', ui_firstDetected = 0,
           ui_lastDetected = 0, ui_confidence = 0.1, ui_status = ''active'',
           ui_relatedEntities = None\<rparr>"
  using decay_never_below_floor[of 120000
      "\<lparr>et_entities = [(''e1'', \<lparr>te_id = ''e1'', te_name = ''paris'', te_type = ''city'',
           te_firstMentioned = 0, te_lastMentioned = 0, te_attributes = [], te_salience = 0.1\<rparr>)],
       et_entityLifespan = [(''e1'', 1)], et_lastCleanupTimestamp = 0\<rparr>"
      "''e1''" 1
      "\<lparr>te_id = ''e1'', te_name = ''paris'', te_type = ''city'',
           te_firstMentioned = 0, te_lastMentioned = 0, te_attributes = [], te_salience = 0.1\<rparr>"
      "[(''i1'', \<lparr>ui_id = ''i1'', ui_type = ''small_talk'', ui_firstDetected = 0,
           ui_lastDetected = 0, ui_confidence = 0.1, ui_status = ''active'',
           ui_relatedEntities = None\<rparr>)]"
      "''i1''"
      "\<lparr>ui_id = ''i1'', ui_type = ''small_talk'', ui_firstDetected = 0,
           ui_lastDetected = 0, ui_confidence = 0.1, ui_status = ''active'',
           ui_relatedEntities = None\<rparr>"
      400000]
  by simp

text \<open>
  Claim C6.  For every text, \<open>detectIntentions\<close> returns a non-empty list sorted by
  descending confidence; when the pattern pass, the keyword pass and the question-mark rule
  detect nothing, the list is the single fallback intention of type \<open>UNKNOWN\<close>.
\<close>

theorem detectIntentions_nonempty_sorted:
  "detectIntentions text entities \<noteq> []
   \<and> sorted_wrt (\<lambda>a b. in_confidence a \<ge> in_confidence b) (detectIntentions text entities)
   \<and> (questionMarkPass text entities
         (keywordPass (trim (toLowerCase text)) entities (patternPass text entities)) = []
       \<longrightarrow> detectIntentions text entities
             = [\<lparr>in_type = UNKNOWN, in_confidence = 1.0, in_relatedEntities = entities,
                 in_metadata = None\<rparr>])"
proof (intro conjI impI)
  have "length (detectIntentions text entities) \<noteq> 0"
    using fallbackPass_nonempty by (simp add: detectIntentions_def Let_def length_sortByConfidence)
  then show "detectIntentions text entities \<noteq> []" by simp
next
  show "sorted_wrt (\<lambda>a b. in_confidence a \<ge> in_confidence b) (detectIntentions text entities)"
    by (simp add: detectIntentions_def Let_def sorted_sortByConfidence)
next
  assume "questionMarkPass text entities
         (keywordPass (trim (toLowerCase text)) entities (patternPass text entities)) = []"
  then show "detectIntentions text entities
             = [\<lparr>in_type = UNKNOWN, in_confidence = 1.0, in_relatedEntities = entities,
                 in_metadata = None\<rparr>]"
    by (simp add: detectIntentions_def Let_def fallbackPass_def sortByConfidence_def)
qed

theorem detectIntentions_nonempty_sorted_witness:
  "questionMarkPass ''xyz'' None (keywordPass (trim (toLowerCase ''xyz'')) None (patternPass ''xyz'' None)) = []
   \<and> detectIntentions ''xyz'' None
        = [\<lparr>in_type = UNKNOWN, in_confidence = 1.0, in_relatedEntities = None, in_metadata = None\<rparr>]"
proof -
  have h: "questionMarkPass ''xyz'' None (keywordPass (trim (toLowerCase ''xyz'')) None (patternPass ''xyz'' None)) = []"
    by code_simp
  with detectIntentions_nonempty_sorted[of "''xyz''" None] show ?thesis by blast
qed

text \<open>
  Claim C8.  A text that matches no pattern of the table, contains none of the keywords as a
  whole word and does not end with a question mark yields exactly one intention, of type
  \<open>UNKNOWN\<close> with confidence \<open>1.0\<close>; no intention of any output has a higher
  confidence.
\<close>

theorem unknown_fallback_only:
  assumes "\<forall>(ty, pats) \<in> set intentionPatterns. \<forall>p \<in> set pats. \<not> regexTest p True text"
    and "\<forall>(ty, kws) \<in> set intentionKeywords. \<forall>kw \<in> set kws.
           \<not> keywordPresent kw (trim (toLowerCase text))"
    and "\<not> endsWith text ''?''"
  shows "detectIntentions text entities
           = [\<lparr>in_type = UNKNOWN, in_confidence = 1.0, in_relatedEntities = entities,
               in_metadata = None\<rparr>]
         \<and> (\<forall>t e. \<forall>i \<in> set (detectIntentions t e). in_confidence i \<le> 1.0)"
proof
  have p: "patternPass text entities = []" using assms(1) by (rule patternPass_empty)
  have k: "keywordPass (trim (toLowerCase text)) entities [] = []"
    using assms(2) by (rule keywordPass_none)
  have q: "questionMarkPass text entities [] = []"
    using assms(3) by (simp add: questionMarkPass_def)
  show "detectIntentions text entities
           = [\<lparr>in_type = UNKNOWN, in_confidence = 1.0, in_relatedEntities = entities,
               in_metadata = None\<rparr>]"
    by (simp add: detectIntentions_def Let_def p k q fallbackPass_def sortByConfidence_def)
next
  show "\<forall>t e. \<forall>i \<in> set (detectIntentions t e). in_confidence i \<le> 1.0"
    using detectIntentions_conf_le_1 by simp
qed

theorem unknown_fallback_only_witness:
  "list_all (\<lambda>(ty, pats). list_all (\<lambda>p. \<not> regexTest p True ''ok then'') pats) intentionPatterns
   \<and> list_all (\<lambda>(ty, kws). list_all (\<lambda>kw. \<not> keywordPresent kw (trim (toLowerCase ''ok then''))) kws)
        intentionKeywords
   \<and> \<not> endsWith ''ok then'' ''?''
   \<and> detectIntentions ''ok then'' (Some [])
           = [\<lparr>in_type = UNKNOWN, in_confidence = 1.0, in_relatedEntities = Some [],
               in_metadata = None\<rparr>]"
proof -
  have h1: "list_all (\<lambda>(ty, pats). list_all (\<lambda>p. \<not> regexTest p True ''ok then'') pats) intentionPatterns"
    by code_simp
  have h2: "list_all (\<lambda>(ty, kws). list_all (\<lambda>kw. \<not> keywordPresent kw (trim (toLowerCase ''ok then''))) kws)
        intentionKeywords"
    by code_simp
  have h3: "\<not> endsWith ''ok then'' ''?''" by code_simp
  from h1 have a1: "\<forall>(ty, pats) \<in> set intentionPatterns. \<forall>p \<in> set pats. \<not> regexTest p True ''ok then''"
    by (simp add: list_all_iff case_prod_beta)
  from h2 have a2: "\<forall>(ty, kws) \<in> set intentionKeywords. \<forall>kw \<in> set kws.
           \<not> keywordPresent kw (trim (toLowerCase ''ok then''))"
    by (simp add: list_all_iff case_prod_beta)
  from unknown_fallback_only[OF a1 a2 h3, of "Some []"] h1 h2 h3 show ?thesis by blast
qed





text \<open>
  Claim C2.  \<open>addMessage\<close> trims the active topics to the five most recent
  (\<open>updateTopics\<close>), \<open>focusOnTopic\<close> appends the topic without trimming: on a working
  memory that holds five topics, reached by one \<open>addMessage\<close> from the empty context, focusing
  on a sixth topic leaves six active topics, in the conversation state and in the focus.
\<close>

theorem focusOnTopic_exceeds_topic_cap:
  "(let topicEntity = (\<lambda>v. \<lparr>en_type = TOPIC, en_value = v, en_normalizedValue = None,
        en_startIndex = None, en_endIndex = None, en_confidence = 0.9, en_attributes = None,
        en_firstMentionedAt = None, en_lastMentionedAt = None, en_mentionCount = None\<rparr>);
       ctx = addMessage 0
         \<lparr>em_content = ''ai, health, politics, economics and education'', em_sender = User,
          em_timestamp = 0, em_detectedIntentions = None, em_primaryIntention = None,
          em_entities = Some [topicEntity ''ai'', topicEntity ''health'', topicEntity ''politics'',
                              topicEntity ''economics'', topicEntity ''education'']\<rparr>
         (reset 0)
   in withinCaps ctx
      \<and> wcs_activeTopics (cc_conversationState (focusOnTopic 1 ''technology'' ctx))
          = [''ai'', ''health'', ''politics'', ''economics'', ''education'', ''technology'']
      \<and> fs_activeTopics (cc_currentFocus (focusOnTopic 1 ''technology'' ctx))
          = [''ai'', ''health'', ''politics'', ''economics'', ''education'', ''technology'']
      \<and> \<not> withinCaps (focusOnTopic 1 ''technology'' ctx))"
  by code_simp






text \<open>
  Claim C1, as the code has it.  \<open>resolveConflict\<close> looks a custom priority up for the
  ordered pair of its arguments only, and on equal importance returns its first argument:
  the first theorem shows both orders disagreeing, once after
  \<open>setCustomPriority('truthfulness', 'human_agency', 1)\<close> and once for two values of equal
  importance.  The two orders agree whenever the custom priority of one order is the negative
  of the other's (in particular when there is none) and the case is decided: by a custom
  priority, by applicabilities more than \<open>0.3\<close> apart, or by different importances.  The
  winner is always one of the two values.
\<close>

theorem resolveConflict_symmetric_counterexample:
  "setCustomPriority ''truthfulness'' ''human_agency'' 1 None (newValueHierarchy coreValues)
     = Inr ((newValueHierarchy coreValues)
              \<lparr>vh_customPriorities := [(''truthfulness'', [(''human_agency'', [(DefaultKey, 1)])])]\<rparr>)
   \<and> cv_id (resolveConflict
        ((newValueHierarchy coreValues)
           \<lparr>vh_customPriorities := [(''truthfulness'', [(''human_agency'', [(DefaultKey, 1)])])]\<rparr>)
        truthfulness humanAgency
        \<lparr>ctx_entities = [], ctx_userIntentions = [],
         ctx_conversationState = \<lparr>cs_id = ''c1'', cs_stage = ''exploration'', cs_activeTopics = [],
            cs_recentSentiment = 0, cs_engagementLevel = 0.5, cs_userSatisfaction = 0.5\<rparr>,
         ctx_environmentalFactors = [], ctx_userPreferences = [], ctx_recentMessages = [],
         ctx_conversationId = ''c1''\<rparr>) = ''truthfulness''
   \<and> cv_id (resolveConflict
        ((newValueHierarchy coreValues)
           \<lparr>vh_customPriorities := [(''truthfulness'', [(''human_agency'', [(DefaultKey, 1)])])]\<rparr>)
        humanAgency truthfulness
        \<lparr>ctx_entities = [], ctx_userIntentions = [],
         ctx_conversationState = \<lparr>cs_id = ''c1'', cs_stage = ''exploration'', cs_activeTopics = [],
            cs_recentSentiment = 0, cs_engagementLevel = 0.5, cs_userSatisfaction = 0.5\<rparr>,
         ctx_environmentalFactors = [], ctx_userPreferences = [], ctx_recentMessages = [],
         ctx_conversationId = ''c1''\<rparr>) = ''human_agency''
   \<and> cv_id (resolveConflict (newValueHierarchy [])
        \<lparr>cv_id = ''a'', cv_description = ''first'', cv_importance = 0.8, cv_manifestations = []\<rparr>
        \<lparr>cv_id = ''b'', cv_description = ''second'', cv_importance = 0.8, cv_manifestations = []\<rparr>
        \<lparr>ctx_entities = [], ctx_userIntentions = [],
         ctx_conversationState = \<lparr>cs_id = ''c1'', cs_stage = ''exploration'', cs_activeTopics = [],
            cs_recentSentiment = 0, cs_engagementLevel = 0.5, cs_userSatisfaction = 0.5\<rparr>,
         ctx_environmentalFactors = [], ctx_userPreferences = [], ctx_recentMessages = [],
         ctx_conversationId = ''c1''\<rparr>) = ''a''
   \<and> cv_id (resolveConflict (newValueHierarchy [])
        \<lparr>cv_id = ''b'', cv_description = ''second'', cv_importance = 0.8, cv_manifestations = []\<rparr>
        \<lparr>cv_id = ''a'', cv_description = ''first'', cv_importance = 0.8, cv_manifestations = []\<rparr>
        \<lparr>ctx_entities = [], ctx_userIntentions = [],
         ctx_conversationState = \<lparr>cs_id = ''c1'', cs_stage = ''exploration'', cs_activeTopics = [],
            cs_recentSentiment = 0, cs_engagementLevel = 0.5, cs_userSatisfaction = 0.5\<rparr>,
         ctx_environmentalFactors = [], ctx_userPreferences = [], ctx_recentMessages = [],
         ctx_conversationId = ''c1''\<rparr>) = ''b''"
  by code_simp

theorem resolveConflict_symmetric:
  assumes custom: "getCustomPriorityInContext st (cv_id B) (cv_id A) ctx
                     = - getCustomPriorityInContext st (cv_id A) (cv_id B) ctx"
    and decided: "getCustomPriorityInContext st (cv_id A) (cv_id B) ctx \<noteq> 0
                  \<or> \<bar>getValueApplicability A ctx - getValueApplicability B ctx\<bar> > 0.3
                  \<or> cv_importance A \<noteq> cv_importance B"
  shows "resolveConflict st A B ctx = resolveConflict st B A ctx
         \<and> resolveConflict st A B ctx \<in> {A, B}"
proof
  show "resolveConflict st A B ctx = resolveConflict st B A ctx"
  proof (cases "getCustomPriorityInContext st (cv_id A) (cv_id B) ctx = 0")
    case False
    with custom show ?thesis by (simp add: resolveConflict_cases)
  next
    case True
    with custom have z: "getCustomPriorityInContext st (cv_id B) (cv_id A) ctx = 0" by simp
    have sw: "\<bar>getValueApplicability B ctx - getValueApplicability A ctx\<bar>
            = \<bar>getValueApplicability A ctx - getValueApplicability B ctx\<bar>" by simp
    show ?thesis
    proof (cases "\<bar>getValueApplicability A ctx - getValueApplicability B ctx\<bar> > 0.3")
      case True
      then show ?thesis using \<open>getCustomPriorityInContext st (cv_id A) (cv_id B) ctx = 0\<close> z
        unfolding resolveConflict_cases[of st A B] resolveConflict_cases[of st B A] sw
        by auto
    next
      case False
      with decided \<open>getCustomPriorityInContext st (cv_id A) (cv_id B) ctx = 0\<close>
      have "cv_importance A \<noteq> cv_importance B" by simp
      then show ?thesis using False \<open>getCustomPriorityInContext st (cv_id A) (cv_id B) ctx = 0\<close> z
        unfolding resolveConflict_cases[of st A B] resolveConflict_cases[of st B A] sw
        by auto
    qed
  qed
next
  show "resolveConflict st A B ctx \<in> {A, B}" by (simp add: resolveConflict_cases)
qed

theorem resolveConflict_symmetric_witness:
  "resolveConflict (newValueHierarchy coreValues) humanAgency truthfulness
        \<lparr>ctx_entities = [], ctx_userIntentions = [],
         ctx_conversationState = \<lparr>cs_id = ''c1'', cs_stage = ''exploration'', cs_activeTopics = [],
            cs_recentSentiment = 0, cs_engagementLevel = 0.5, cs_userSatisfaction = 0.5\<rparr>,
         ctx_environmentalFactors = [], ctx_userPreferences = [], ctx_recentMessages = [],
         ctx_conversationId = ''c1''\<rparr>
     = resolveConflict (newValueHierarchy coreValues) truthfulness humanAgency
        \<lparr>ctx_entities = [], ctx_userIntentions = [],
         ctx_conversationState = \<lparr>cs_id = ''c1'', cs_stage = ''exploration'', cs_activeTopics = [],
            cs_recentSentiment = 0, cs_engagementLevel = 0.5, cs_userSatisfaction = 0.5\<rparr>,
         ctx_environmentalFactors = [], ctx_userPreferences = [], ctx_recentMessages = [],
         ctx_conversationId = ''c1''\<rparr>
   \<and> cv_importance humanAgency \<noteq> cv_importance truthfulness"
proof -
  let ?ctx = "\<lparr>ctx_entities = [], ctx_userIntentions = [],
         ctx_conversationState = \<lparr>cs_id = ''c1'', cs_stage = ''exploration'', cs_activeTopics = [],
            cs_recentSentiment = 0, cs_engagementLevel = 0.5, cs_userSatisfaction = 0.5\<rparr>,
         ctx_environmentalFactors = [], ctx_userPreferences = [], ctx_recentMessages = [],
         ctx_conversationId = ''c1''\<rparr>"
  let ?st = "newValueHierarchy coreValues"
  have c1: "getCustomPriorityInContext ?st (cv_id humanAgency) (cv_id truthfulness) ?ctx = 0"
    by (simp add: getCustomPriorityInContext_def newValueHierarchy_def)
  have c2: "getCustomPriorityInContext ?st (cv_id truthfulness) (cv_id humanAgency) ?ctx = 0"
    by (simp add: getCustomPriorityInContext_def newValueHierarchy_def)
  have i: "cv_importance humanAgency \<noteq> cv_importance truthfulness"
    by (simp add: humanAgency_def truthfulness_def)
  from resolveConflict_symmetric[of ?st truthfulness humanAgency ?ctx] c1 c2 i
  show ?thesis by simp
qed

text \<open>
  Claim C3, as the code has it.  For every text the three passes end and
  \<open>recognizeEntities\<close> returns entities with \<open>0 \<le> startIndex < endIndex \<le> text.length\<close>, in
  the order of their spans and without overlap, each of them one of the candidates.  The
  loop of \<open>resolveOverlappingEntities\<close> compares a candidate with the one it currently holds
  only.  On the text \<open>Al Bo Street Ultra\<close> the candidate \<open>Al Bo\<close> is replaced by the longer
  \<open>Bo Street\<close>, which is replaced by \<open>Street Ultra\<close> in turn: of the overlapping candidates
  \<open>Al Bo\<close> and \<open>Bo Street\<close> neither is kept, and \<open>Al Bo\<close> is lost although no returned
  entity overlaps it (first theorem).  What holds for every text (second theorem): a
  candidate is dropped only when another candidate overlaps it and has a higher confidence,
  or the same confidence and a span at least as long; and every candidate is linked, by a
  chain of candidates each overlapping the next, to a returned one with a higher confidence,
  or the same confidence and a span at least as long.
\<close>

theorem resolve_keeps_best_of_overlapping_counterexample:
  "candidateEntities ''Al Bo Street Ultra''
     = Some [\<lparr>en_type = PERSON, en_value = ''Al Bo'', en_normalizedValue = None,
               en_startIndex = Some 0, en_endIndex = Some 5, en_confidence = 0.8,
               en_attributes = None, en_firstMentionedAt = None, en_lastMentionedAt = None,
               en_mentionCount = None\<rparr>,
             \<lparr>en_type = PERSON, en_value = ''Street Ultra'', en_normalizedValue = None,
               en_startIndex = Some 6, en_endIndex = Some 18, en_confidence = 0.8,
               en_attributes = None, en_firstMentionedAt = None, en_lastMentionedAt = None,
               en_mentionCount = None\<rparr>,
             \<lparr>en_type = LOCATION, en_value = ''Bo Street'', en_normalizedValue = None,
               en_startIndex = Some 3, en_endIndex = Some 12, en_confidence = 0.8,
               en_attributes = None, en_firstMentionedAt = None, en_lastMentionedAt = None,
               en_mentionCount = None\<rparr>,
             \<lparr>en_type = PRODUCT, en_value = ''Street Ultra'', en_normalizedValue = None,
               en_startIndex = Some 6, en_endIndex = Some 18, en_confidence = 0.8,
               en_attributes = None, en_firstMentionedAt = None, en_lastMentionedAt = None,
               en_mentionCount = None\<rparr>]
   \<and> recognizeEntities 1700000000000 ''Al Bo Street Ultra''
     = Some [\<lparr>en_type = PERSON, en_value = ''Street Ultra'', en_normalizedValue = None,
               en_startIndex = Some 6, en_endIndex = Some 18, en_confidence = 0.8,
               en_attributes = None, en_firstMentionedAt = Some 1700000000000,
               en_lastMentionedAt = Some 1700000000000, en_mentionCount = Some 1\<rparr>]
   \<and> spansOverlap (the (candidateEntities ''Al Bo Street Ultra'') ! 0) (the (candidateEntities ''Al Bo Street Ultra'') ! 2)
   \<and> preferredTo (the (candidateEntities ''Al Bo Street Ultra'') ! 2) (the (candidateEntities ''Al Bo Street Ultra'') ! 0)
   \<and> length (the (recognizeEntities 1700000000000 ''Al Bo Street Ultra'')) = 1
   \<and> \<not> sameCandidate (the (recognizeEntities 1700000000000 ''Al Bo Street Ultra'') ! 0) (the (candidateEntities ''Al Bo Street Ultra'') ! 0)
   \<and> \<not> sameCandidate (the (recognizeEntities 1700000000000 ''Al Bo Street Ultra'') ! 0) (the (candidateEntities ''Al Bo Street Ultra'') ! 2)
   \<and> \<not> spansOverlap (the (recognizeEntities 1700000000000 ''Al Bo Street Ultra'') ! 0) (the (candidateEntities ''Al Bo Street Ultra'') ! 0)"
proof -
  have c: "candidateEntities ''Al Bo Street Ultra''
     = Some [\<lparr>en_type = PERSON, en_value = ''Al Bo'', en_normalizedValue = None,
               en_startIndex = Some 0, en_endIndex = Some 5, en_confidence = 0.8,
               en_attributes = None, en_firstMentionedAt = None, en_lastMentionedAt = None,
               en_mentionCount = None\<rparr>,
             \<lparr>en_type = PERSON, en_value = ''Street Ultra'', en_normalizedValue = None,
               en_startIndex = Some 6, en_endIndex = Some 18, en_confidence = 0.8,
               en_attributes = None, en_firstMentionedAt = None, en_lastMentionedAt = None,
               en_mentionCount = None\<rparr>,
             \<lparr>en_type = LOCATION, en_value = ''Bo Street'', en_normalizedValue = None,
               en_startIndex = Some 3, en_endIndex = Some 12, en_confidence = 0.8,
               en_attributes = None, en_firstMentionedAt = None, en_lastMentionedAt = None,
               en_mentionCount = None\<rparr>,
             \<lparr>en_type = PRODUCT, en_value = ''Street Ultra'', en_normalizedValue = None,
               en_startIndex = Some 6, en_endIndex = Some 18, en_confidence = 0.8,
               en_attributes = None, en_firstMentionedAt = None, en_lastMentionedAt = None,
               en_mentionCount = None\<rparr>]"
    by code_simp
  have r: "recognizeEntities 1700000000000 ''Al Bo Street Ultra''
     = Some [\<lparr>en_type = PERSON, en_value = ''Street Ultra'', en_normalizedValue = None,
               en_startIndex = Some 6, en_endIndex = Some 18, en_confidence = 0.8,
               en_attributes = None, en_firstMentionedAt = Some 1700000000000,
               en_lastMentionedAt = Some 1700000000000, en_mentionCount = Some 1\<rparr>]"
    unfolding recognizeEntities_def c
    by (simp add: resolveOverlappingEntities_def sortByStart_def startOr0_def endOr0_def
          spanLength_def Let_def)
  show ?thesis unfolding c r
    by (simp add: spansOverlap_def preferredTo_def sameCandidate_def startOr0_def endOr0_def
          spanLength_def)
qed

theorem recognizeEntities_spans:
  "\<exists>cands es.
     candidateEntities text = Some cands \<and> recognizeEntities now text = Some es
     \<and> (\<forall>e \<in> set es. spanWithin (length text) e)
     \<and> sorted_wrt (\<lambda>a b. endOr0 a \<le> startOr0 b \<and> \<not> spansOverlap a b) es
     \<and> (\<forall>e \<in> set es. \<exists>c \<in> set cands. sameCandidate e c)
     \<and> (\<forall>c \<in> set cands.
           (\<exists>e \<in> set es. sameCandidate e c)
           \<or> (\<exists>d \<in> set cands. d \<noteq> c \<and> spansOverlap d c \<and> preferredTo d c))
     \<and> (\<forall>c \<in> set cands. \<exists>k \<in> set cands.
           overlapChain cands c k \<and> preferredTo k c \<and> (\<exists>e \<in> set es. sameCandidate e k))"
proof -
  from candidateEntities_spans obtain cands where
    c: "candidateEntities text = Some cands"
    and spans: "\<forall>e \<in> set cands. spanWithin (length text) e" by blast
  from c have r: "recognizeEntities now text = Some (resolveOverlappingEntities now cands)"
    by (simp add: recognizeEntities_def)
  from resolveOverlappingEntities_spec[OF spans, of now] c r show ?thesis by blast
qed

theorem recognizeEntities_spans_witness:
  "candidateEntities ''Al Bo Street Ultra'' \<noteq> None
   \<and> recognizeEntities 0 ''Al Bo Street Ultra'' \<noteq> None
   \<and> list_all (spanWithin 18) (the (recognizeEntities 0 ''Al Bo Street Ultra''))
   \<and> list_all (\<lambda>c. list_ex (\<lambda>e. sameCandidate e c) (the (recognizeEntities 0 ''Al Bo Street Ultra''))
                  \<or> list_ex (\<lambda>d. d \<noteq> c \<and> spansOverlap d c \<and> preferredTo d c)
                       (the (candidateEntities ''Al Bo Street Ultra'')))
        (the (candidateEntities ''Al Bo Street Ultra''))"
proof -
  have l: "length ''Al Bo Street Ultra'' = 18" by simp
  from recognizeEntities_spans[of "''Al Bo Street Ultra''" 0]
  show ?thesis unfolding l list_all_iff list_ex_iff by fastforce
qed

end
